theory Spec2Isabelle
  imports Main "HOL-Library.Word"
begin

unbundle bit_operations_syntax

section \<open>Data model of the framebuffer pixel extractor (km\_new/kernel.c)\<close>

text \<open>
  The module keeps a ring of \<open>MAX_FB_CAPTURE\<close> capture records, filled by
  \<open>capture_fb_pixels\<close> and read by \<open>drm_fb_raw_read\<close>.  Fixed-width C integers are
  words: \<open>uint32_t\<close> is \<open>32 word\<close>, so \<open>*\<close> and \<open>+\<close> wrap modulo \<open>2^32\<close> exactly
  as the unsigned C arithmetic of the converter does.  Values of type \<open>size_t\<close> that
  the code only compares, subtracts under a guard or adds below a bound are natural
  numbers.  A pointer to a byte buffer is \<open>buf option\<close> with \<open>None\<close> for \<open>NULL\<close>;
  the opaque pointers \<open>fb\<close> and \<open>dev\<close> kept for display are addresses.

  A function result of \<open>None\<close> means that the C code would touch memory outside the
  buffer it was given, which C leaves undefined.
\<close>

type_synonym u8 = "8 word"
type_synonym u32 = "32 word"
type_synonym u64 = "64 word"
type_synonym buf = "u8 list"
type_synonym ptr = u64

datatype errno = EINVAL | ENOMEM | ENODATA | EFAULT

definition MAX_FB_CAPTURE :: nat where
  "MAX_FB_CAPTURE = 5"

definition MAX_CAPTURE_SIZE :: nat where
  "MAX_CAPTURE_SIZE = 3840 * 1080 * 4"

definition INTEL_TILE_X_WIDTH :: u32 where
  "INTEL_TILE_X_WIDTH = 512"

definition INTEL_TILE_X_HEIGHT :: u32 where
  "INTEL_TILE_X_HEIGHT = 8"

definition INTEL_TILE_Y_WIDTH :: u32 where
  "INTEL_TILE_Y_WIDTH = 128"

definition INTEL_TILE_Y_HEIGHT :: u32 where
  "INTEL_TILE_Y_HEIGHT = 32"

datatype intel_tiling =
  INTEL_TILING_NONE | INTEL_TILING_X | INTEL_TILING_Y | INTEL_TILING_YF

record fb_pixel_data =
  fb :: ptr
  dev :: ptr
  pixel_buffer :: "buf option"
  buffer_size :: nat
  width :: u32
  height :: u32
  format :: u32
  pitch :: u32
  timestamp :: u64
  valid :: bool
  has_pixels :: bool
  is_detiled :: bool
  detected_tiling :: intel_tiling

text \<open>\<open>memset(capture, 0, sizeof(*capture))\<close>: every field zero.\<close>

definition zero_capture :: fb_pixel_data where
  "zero_capture =
     \<lparr>fb = 0, dev = 0, pixel_buffer = None, buffer_size = 0, width = 0, height = 0,
      format = 0, pitch = 0, timestamp = 0, valid = False, has_pixels = False,
      is_detiled = False, detected_tiling = INTEL_TILING_NONE\<rparr>"

text \<open>The globals \<open>captured_fbs\<close>, \<open>capture_count\<close> and \<open>current_index\<close>.\<close>

record capture_state =
  captured_fbs :: "fb_pixel_data list"
  capture_count :: nat
  current_index :: nat

text \<open>The state after \<open>drm_fb_extractor_init\<close>.\<close>

definition init_state :: capture_state where
  "init_state =
     \<lparr>captured_fbs = replicate MAX_FB_CAPTURE zero_capture, capture_count = 0,
      current_index = 0\<rparr>"

subsection \<open>What the kernel supplies\<close>

text \<open>
  A page of the page cache is what \<open>kmap_atomic\<close> returns for it: the bytes of the
  page by offset, or \<open>None\<close> for a \<open>NULL\<close> address.  An address space is
  \<open>find_get_page\<close>: the page at an index, or \<open>None\<close>.
\<close>

type_synonym page = "(nat \<Rightarrow> u8) option"
type_synonym address_space = "nat \<Rightarrow> page option"

record struct_file =
  f_mapping :: "address_space option"

text \<open>
  \<open>dma_buf_vmap\<close> returns \<open>vmap_ret\<close> (\<open>None\<close> for 0) and fills the map; a map
  whose \<open>vaddr\<close> is \<open>None\<close> is the null map of \<open>dma_buf_map_is_null\<close>.
\<close>

record dma_buf_map =
  vaddr :: "(nat \<Rightarrow> u8) option"
  is_iomem :: bool

record dma_buf =
  dmabuf_size :: nat
  vmap_ret :: "errno option"
  vmap_map :: dma_buf_map

record drm_gem_object =
  gem_size :: nat
  filp :: "struct_file option"
  gem_dma_buf :: "dma_buf option"
  import_attach :: bool

record drm_framebuffer =
  fb_addr :: ptr
  fb_width :: u32
  fb_height :: u32
  fb_format :: u32
  fb_pitches0 :: u32
  fb_modifier :: u64
  fb_obj0 :: "drm_gem_object option"

text \<open>
  The kernel headers are not part of the repository, so what they define is a
  parameter: the three i915 format modifiers of \<open>drm_fourcc.h\<close> (distinct, being the
  labels of one \<open>switch\<close>) and \<open>PAGE_SHIFT\<close>.  The same record carries what one run
  of the pipeline gets from the running kernel: the clock, and for each of the two
  \<open>vmalloc\<close> calls whether it succeeds and, if so, the uninitialised bytes the fresh
  memory holds.
\<close>

record kernel_env =
  I915_FORMAT_MOD_X_TILED :: u64
  I915_FORMAT_MOD_Y_TILED :: u64
  I915_FORMAT_MOD_Yf_TILED :: u64
  PAGE_SHIFT :: nat
  ktime_get_ns :: u64
  pixel_vmalloc :: "(nat \<Rightarrow> u8) option"
  raw_vmalloc :: "(nat \<Rightarrow> u8) option"

definition PAGE_SIZE :: "kernel_env \<Rightarrow> nat" where
  "PAGE_SIZE env = 2 ^ PAGE_SHIFT env"

text \<open>\<open>vmalloc\<close> returns \<open>NULL\<close> for a size of zero and when memory is short.\<close>

definition vmalloc :: "(nat \<Rightarrow> u8) option \<Rightarrow> nat \<Rightarrow> buf option" where
  "vmalloc outcome n =
     (case outcome of
        None \<Rightarrow> None
      | Some junk \<Rightarrow> if n = 0 then None else Some (map junk [0..<n]))"

text \<open>\<open>memcpy(target + off, bytes, length bytes)\<close>.\<close>

definition memcpy :: "buf \<Rightarrow> nat \<Rightarrow> u8 list \<Rightarrow> buf option" where
  "memcpy target off bytes =
     (if off + length bytes \<le> length target
      then Some (take off target @ bytes @ drop (off + length bytes) target)
      else None)"

section \<open>Tiling detection\<close>

definition detect_intel_tiling :: "kernel_env \<Rightarrow> drm_framebuffer option \<Rightarrow> intel_tiling" where
  "detect_intel_tiling env fbp =
     (case fbp of
        None \<Rightarrow> INTEL_TILING_NONE
      | Some f \<Rightarrow>
          if fb_modifier f = 0 then INTEL_TILING_NONE
          else if fb_modifier f = I915_FORMAT_MOD_X_TILED env then INTEL_TILING_X
          else if fb_modifier f = I915_FORMAT_MOD_Y_TILED env then INTEL_TILING_Y
          else if fb_modifier f = I915_FORMAT_MOD_Yf_TILED env then INTEL_TILING_YF
          else if fb_pitches0 f mod INTEL_TILE_X_WIDTH = 0 then INTEL_TILING_X
          else INTEL_TILING_NONE)"

section \<open>The layout converter\<close>

definition tile_offset_x :: "u32 \<Rightarrow> u32 \<Rightarrow> u32" where
  "tile_offset_x x tile_width = x AND (tile_width - 1)"

definition tile_offset_y :: "u32 \<Rightarrow> u32 \<Rightarrow> u32" where
  "tile_offset_y y tile_height = y AND (tile_height - 1)"

text \<open>The \<open>switch\<close> that sets \<open>tile_w\<close> and \<open>tile_h\<close>; \<open>None\<close> is its default branch.\<close>

definition tile_dims :: "intel_tiling \<Rightarrow> (u32 \<times> u32) option" where
  "tile_dims tiling =
     (case tiling of
        INTEL_TILING_X \<Rightarrow> Some (INTEL_TILE_X_WIDTH, INTEL_TILE_X_HEIGHT)
      | INTEL_TILING_Y \<Rightarrow> Some (INTEL_TILE_Y_WIDTH, INTEL_TILE_Y_HEIGHT)
      | INTEL_TILING_YF \<Rightarrow> Some (INTEL_TILE_Y_WIDTH, INTEL_TILE_Y_HEIGHT)
      | INTEL_TILING_NONE \<Rightarrow> None)"

text \<open>The offsets the loop body computes for pixel \<open>(x, y)\<close>, in \<open>uint32_t\<close>.\<close>

definition src_offset_of :: "u32 \<Rightarrow> u32 \<Rightarrow> u32 \<Rightarrow> u32 \<Rightarrow> u32 \<Rightarrow> u32" where
  "src_offset_of tile_w tile_h pitch' x y =
     (let tile_size = tile_w * tile_h;
          tiles_per_row = pitch' div tile_w;
          byte_x = x * 4;
          tile_x = byte_x div tile_w;
          tile_y = y div tile_h;
          tile_index = tile_y * tiles_per_row + tile_x;
          in_tile_x = tile_offset_x byte_x tile_w;
          in_tile_y = tile_offset_y y tile_h
      in tile_index * tile_size + in_tile_y * tile_w + in_tile_x)"

definition dst_offset_of :: "u32 \<Rightarrow> u32 \<Rightarrow> u32 \<Rightarrow> u32" where
  "dst_offset_of width' x y = y * width' * 4 + x * 4"

text \<open>
  A counting loop \<open>for (i = 0; i < n; i++) body\<close> over a state that a step may leave
  undefined.
\<close>

primrec for_upto :: "nat \<Rightarrow> (nat \<Rightarrow> 's \<Rightarrow> 's option) \<Rightarrow> 's \<Rightarrow> 's option" where
  "for_upto 0 body s = Some s"
| "for_upto (Suc n) body s =
     (case for_upto n body s of None \<Rightarrow> None | Some s' \<Rightarrow> body n s')"

text \<open>
  The guarded assignment of the innermost loop.  The guard compares 32-bit values;
  the assignment itself is defined only inside the two buffers.
\<close>

definition copy_byte ::
  "buf \<Rightarrow> u32 \<Rightarrow> u32 \<Rightarrow> u32 \<Rightarrow> u32 \<Rightarrow> nat \<Rightarrow> buf \<Rightarrow> buf option" where
  "copy_byte src src_limit dst_limit src_offset dst_offset byte_offset dst =
     (if src_offset + of_nat byte_offset < src_limit \<and>
         dst_offset + of_nat byte_offset < dst_limit
      then
        if unat (src_offset + of_nat byte_offset) < length src \<and>
           unat (dst_offset + of_nat byte_offset) < length dst
        then Some (dst[unat (dst_offset + of_nat byte_offset) :=
                         src ! unat (src_offset + of_nat byte_offset)])
        else None
      else Some dst)"

definition copy_pixel ::
  "buf \<Rightarrow> u32 \<Rightarrow> u32 \<Rightarrow> u32 \<Rightarrow> u32 \<Rightarrow> u32 \<Rightarrow> nat \<Rightarrow> nat \<Rightarrow> buf \<Rightarrow> buf option" where
  "copy_pixel src tile_w tile_h width' height' pitch' y x dst =
     for_upto 4
       (copy_byte src (height' * pitch') (height' * width' * 4)
          (src_offset_of tile_w tile_h pitch' (of_nat x) (of_nat y))
          (dst_offset_of width' (of_nat x) (of_nat y)))
       dst"

definition convert_tiled_to_linear ::
  "buf option \<Rightarrow> buf option \<Rightarrow> u32 \<Rightarrow> u32 \<Rightarrow> u32 \<Rightarrow> intel_tiling \<Rightarrow> (errno + buf) option" where
  "convert_tiled_to_linear src_buffer dst_buffer width' height' pitch' tiling =
     (case src_buffer of
        None \<Rightarrow> Some (Inl EINVAL)
      | Some src \<Rightarrow>
          (case dst_buffer of
             None \<Rightarrow> Some (Inl EINVAL)
           | Some dst \<Rightarrow>
               (case tile_dims tiling of
                  None \<Rightarrow> Some (Inl EINVAL)
                | Some (tile_w, tile_h) \<Rightarrow>
                    map_option Inr
                      (for_upto (unat height')
                         (\<lambda>y. for_upto (unat width')
                                (copy_pixel src tile_w tile_h width' height' pitch' y))
                         dst))))"

section \<open>The buffer extractor\<close>

text \<open>The \<open>while\<close> loop of the SHMEM method; it ends because \<open>index\<close> grows.\<close>

function shmem_copy ::
  "address_space \<Rightarrow> nat \<Rightarrow> nat \<Rightarrow> nat \<Rightarrow> nat \<Rightarrow> nat \<Rightarrow> buf \<Rightarrow> (nat \<times> buf) option" where
  "shmem_copy mapping page_size num_pages target_sz index copied target =
     (if copied < target_sz \<and> index < num_pages then
        (case mapping index of
           Some (Some kaddr) \<Rightarrow>
             (case memcpy target copied
                     (map kaddr [0..<min page_size (target_sz - copied)]) of
                None \<Rightarrow> None
              | Some target' \<Rightarrow>
                  shmem_copy mapping page_size num_pages target_sz (index + 1)
                    (copied + min page_size (target_sz - copied)) target')
         | _ \<Rightarrow> shmem_copy mapping page_size num_pages target_sz (index + 1) copied target)
      else Some (copied, target))"
  by pat_completeness auto
termination
  by (relation "measure (\<lambda>(m, ps, np, ts, i, c, t). np - i)") auto

declare shmem_copy.simps [simp del]

text \<open>
  Method 1.  When the object has no \<open>filp\<close> or no \<open>f_mapping\<close> the block is skipped,
  which leaves \<open>copied\<close> at 0 for the test that follows it.
\<close>

definition shmem_method ::
  "kernel_env \<Rightarrow> drm_gem_object \<Rightarrow> nat \<Rightarrow> buf \<Rightarrow> (nat \<times> buf) option" where
  "shmem_method env gem target_sz target =
     (case filp gem of
        None \<Rightarrow> Some (0, target)
      | Some f \<Rightarrow>
          (case f_mapping f of
             None \<Rightarrow> Some (0, target)
           | Some mapping \<Rightarrow>
               shmem_copy mapping (PAGE_SIZE env)
                 (((gem_size gem + PAGE_SIZE env - 1) mod 2 ^ 64) div 2 ^ PAGE_SHIFT env)
                 target_sz 0 0 target))"

text \<open>Method 3: \<open>NotMapped\<close> when the block is skipped or \<open>dma_buf_vmap\<close> gives no map.\<close>

datatype dmabuf_result = NotMapped | Copied buf

definition dmabuf_method :: "drm_gem_object \<Rightarrow> nat \<Rightarrow> buf \<Rightarrow> dmabuf_result option" where
  "dmabuf_method gem target_sz target =
     (case gem_dma_buf gem of
        None \<Rightarrow> Some NotMapped
      | Some db \<Rightarrow>
          if \<not> import_attach gem then Some NotMapped
          else if vmap_ret db = None \<and> vaddr (vmap_map db) \<noteq> None then
            map_option Copied
              (memcpy target 0
                 (map (the (vaddr (vmap_map db))) [0..<min (dmabuf_size db) target_sz]))
          else Some NotMapped)"

text \<open>
  The block both methods end with: detile from the raw buffer when needed, and return
  \<open>ret\<close>.  Without detiling the bytes were copied into \<open>capture->pixel_buffer\<close>
  itself.
\<close>

definition finish_extract ::
  "bool \<Rightarrow> buf \<Rightarrow> fb_pixel_data \<Rightarrow> ((errno + unit) \<times> fb_pixel_data) option" where
  "finish_extract needs_detiling target capture =
     (if needs_detiling then
        (case convert_tiled_to_linear (Some target) (pixel_buffer capture)
                (width capture) (height capture) (pitch capture) (detected_tiling capture) of
           None \<Rightarrow> None
         | Some (Inl e) \<Rightarrow> Some (Inl e, capture)
         | Some (Inr dst) \<Rightarrow> Some (Inr (), capture\<lparr>pixel_buffer := Some dst, is_detiled := True\<rparr>))
      else Some (Inr (), capture\<lparr>pixel_buffer := map_option (\<lambda>_. target) (pixel_buffer capture)\<rparr>))"

definition extract_gem_pixels ::
  "kernel_env \<Rightarrow> drm_gem_object option \<Rightarrow> fb_pixel_data \<Rightarrow>
     ((errno + unit) \<times> fb_pixel_data) option" where
  "extract_gem_pixels env gem_obj capture =
     (case gem_obj of
        None \<Rightarrow> Some (Inl EINVAL, capture)
      | Some gem \<Rightarrow>
          (let needs_detiling = (detected_tiling capture \<noteq> INTEL_TILING_NONE);
               raw_buffer_size = unat (height capture * pitch capture);
               raw_buffer =
                 (if needs_detiling then vmalloc (raw_vmalloc env) raw_buffer_size else None)
           in if needs_detiling \<and> raw_buffer = None then Some (Inl ENOMEM, capture)
              else
                (let target_buffer = (if needs_detiling then raw_buffer else pixel_buffer capture);
                     target_sz = (if needs_detiling then raw_buffer_size else buffer_size capture);
                     target = (case target_buffer of None \<Rightarrow> [] | Some b \<Rightarrow> b)
                 in case shmem_method env gem target_sz target of
                      None \<Rightarrow> None
                    | Some (copied, target1) \<Rightarrow>
                        if copied > 0 then finish_extract needs_detiling target1 capture
                        else
                          (case dmabuf_method gem target_sz target1 of
                             None \<Rightarrow> None
                           | Some (Copied target2) \<Rightarrow> finish_extract needs_detiling target2 capture
                           | Some NotMapped \<Rightarrow> Some (Inl ENODATA, capture)))))"

section \<open>The capture pipeline\<close>

text \<open>
  The size of the linear output: the product is formed in \<open>uint32_t\<close> and only then
  widened to \<open>size_t\<close> and limited to \<open>MAX_CAPTURE_SIZE\<close>.
\<close>

definition expected_size :: "u32 \<Rightarrow> u32 \<Rightarrow> nat" where
  "expected_size height' width' =
     (if unat (height' * width' * 4) > MAX_CAPTURE_SIZE then MAX_CAPTURE_SIZE
      else unat (height' * width' * 4))"

text \<open>
  The record as it stands when \<open>vmalloc\<close> has been called: the slot's old buffer
  freed, the slot zeroed and the metadata of the framebuffer filled in.
\<close>

definition new_capture :: "kernel_env \<Rightarrow> drm_framebuffer \<Rightarrow> ptr \<Rightarrow> fb_pixel_data" where
  "new_capture env f devp =
     zero_capture
       \<lparr>fb := fb_addr f, dev := devp, width := fb_width f, height := fb_height f,
        format := fb_format f, pitch := fb_pitches0 f, timestamp := ktime_get_ns env,
        is_detiled := False, detected_tiling := detect_intel_tiling env (Some f),
        buffer_size := expected_size (fb_height f) (fb_width f),
        pixel_buffer :=
          vmalloc (pixel_vmalloc env) (expected_size (fb_height f) (fb_width f))\<rparr>"

definition capture_fb_pixels ::
  "kernel_env \<Rightarrow> drm_framebuffer option \<Rightarrow> ptr \<Rightarrow> capture_state \<Rightarrow>
     ((errno + unit) \<times> capture_state) option" where
  "capture_fb_pixels env fbp devp st =
     (case fbp of
        None \<Rightarrow> Some (Inl EINVAL, st)
      | Some f \<Rightarrow>
          (case fb_obj0 f of
             None \<Rightarrow> Some (Inl EINVAL, st)
           | Some gem \<Rightarrow>
               if current_index st \<ge> length (captured_fbs st) then None
               else if pixel_buffer (new_capture env f devp) = None then
                 Some (Inl ENOMEM,
                       st\<lparr>captured_fbs :=
                            (captured_fbs st)[current_index st := new_capture env f devp]\<rparr>)
               else
                 (case extract_gem_pixels env (Some gem) (new_capture env f devp) of
                    None \<Rightarrow> None
                  | Some (ret, capture) \<Rightarrow>
                      Some (Inr (),
                        st\<lparr>captured_fbs := (captured_fbs st)
                               [current_index st :=
                                  (if ret = Inr ()
                                   then capture\<lparr>has_pixels := True, valid := True\<rparr>
                                   else capture\<lparr>has_pixels := False, valid := True\<rparr>)],
                           current_index := (current_index st + 1) mod MAX_FB_CAPTURE,
                           capture_count :=
                             (if capture_count st < MAX_FB_CAPTURE
                              then capture_count st + 1 else capture_count st)\<rparr>))))"

section \<open>The raw read\<close>

text \<open>
  The search loop \<open>for (i = capture_count - 1; i >= 0; i--)\<close>: \<open>find_capture fbs n\<close>
  looks at the indices \<open>n - 1\<close> down to 0 and gives the first hit.
\<close>

primrec find_capture :: "fb_pixel_data list \<Rightarrow> nat \<Rightarrow> nat option" where
  "find_capture fbs 0 = None"
| "find_capture fbs (Suc i) =
     (if valid (fbs ! i) \<and> has_pixels (fbs ! i) then Some i else find_capture fbs i)"

text \<open>
  \<open>copy_to_user\<close> gives the number of bytes it could not copy; \<open>user_room\<close> is how
  many bytes the caller's buffer can take.  The position \<open>*pos\<close> is a signed 64-bit
  \<open>loff_t\<close>, which the comparison with the \<open>size_t\<close> \<open>buffer_size\<close> reads as
  unsigned.  The result is the return value, the bytes handed to the caller and the new
  position.
\<close>

definition copy_to_user :: "nat \<Rightarrow> nat \<Rightarrow> nat" where
  "copy_to_user user_room n = n - min n user_room"

definition drm_fb_raw_read ::
  "capture_state \<Rightarrow> nat \<Rightarrow> nat \<Rightarrow> int \<Rightarrow> ((errno + nat) \<times> u8 list \<times> int) option" where
  "drm_fb_raw_read st user_room count pos =
     (if capture_count st > length (captured_fbs st) then None
      else
        (case find_capture (captured_fbs st) (capture_count st) of
           None \<Rightarrow> Some (Inl ENODATA, [], pos)
         | Some i \<Rightarrow>
             (case pixel_buffer (captured_fbs st ! i) of
                None \<Rightarrow> Some (Inl ENODATA, [], pos)
              | Some pixels \<Rightarrow>
                  (let capture = captured_fbs st ! i;
                       offset = nat (pos mod 2 ^ 64)
                   in if offset \<ge> buffer_size capture then Some (Inr 0, [], pos)
                      else
                        (let to_copy = min count (buffer_size capture - offset)
                         in if offset + to_copy > length pixels then None
                            else if copy_to_user user_room to_copy \<noteq> 0 then
                              Some (Inl EFAULT,
                                    take (min to_copy user_room) (drop offset pixels), pos)
                            else Some (Inr to_copy, take to_copy (drop offset pixels),
                                       pos + int to_copy))))))"

section \<open>Sequences of runs and concrete inputs\<close>

text \<open>
  A sequence of pipeline runs in which every run returns 0; \<open>None\<close> when one of
  them does not.
\<close>

fun run_all ::
  "(kernel_env \<times> drm_framebuffer \<times> ptr) list \<Rightarrow> capture_state \<Rightarrow> capture_state option" where
  "run_all [] st = Some st"
| "run_all ((env, f, d) # rs) st =
     (case capture_fb_pixels env (Some f) d st of
        Some (Inr u, st') \<Rightarrow> run_all rs st'
      | _ \<Rightarrow> None)"

text \<open>The states the module can be in: any runs of the pipeline after initialisation.\<close>

inductive reachable :: "capture_state \<Rightarrow> bool" where
  reachable_init: "reachable init_state"
| reachable_capture:
    "reachable st \<Longrightarrow> capture_fb_pixels env fbp devp st = Some (r, st') \<Longrightarrow> reachable st'"

text \<open>
  Inputs for the concrete runs below.  The modifier values are those of Linux's
  \<open>drm_fourcc.h\<close>, \<open>fourcc_mod_code(INTEL, n)\<close> with vendor code 1, and pages are
  4096 bytes; both allocations succeed and hand out zeroed memory unless an example
  says otherwise.
\<close>

definition fourcc_mod_code :: "u64 \<Rightarrow> u64 \<Rightarrow> u64" where
  "fourcc_mod_code vendor val = push_bit 56 vendor OR (val AND 0x00ffffffffffffff)"

definition linux_env :: "u64 \<Rightarrow> kernel_env" where
  "linux_env now =
     \<lparr>I915_FORMAT_MOD_X_TILED = fourcc_mod_code 1 1,
      I915_FORMAT_MOD_Y_TILED = fourcc_mod_code 1 2,
      I915_FORMAT_MOD_Yf_TILED = fourcc_mod_code 1 3,
      PAGE_SHIFT = 12, ktime_get_ns = now,
      pixel_vmalloc = Some (\<lambda>_. 0), raw_vmalloc = Some (\<lambda>_. 0)\<rparr>"

text \<open>A GEM object with one cached page filled with the byte \<open>b\<close>, and one with no backing at all.\<close>

definition shmem_gem :: "u8 \<Rightarrow> drm_gem_object" where
  "shmem_gem b =
     \<lparr>gem_size = 4096,
      filp = Some \<lparr>f_mapping = Some (\<lambda>i. if i = 0 then Some (Some (\<lambda>_. b)) else None)\<rparr>,
      gem_dma_buf = None, import_attach = False\<rparr>"

definition bare_gem :: drm_gem_object where
  "bare_gem = \<lparr>gem_size = 4096, filp = None, gem_dma_buf = None, import_attach = False\<rparr>"

text \<open>A framebuffer of the given size, pitch and modifier at address \<open>a\<close>.\<close>

definition test_fb ::
  "ptr \<Rightarrow> u32 \<Rightarrow> u32 \<Rightarrow> u32 \<Rightarrow> u64 \<Rightarrow> drm_gem_object \<Rightarrow> drm_framebuffer" where
  "test_fb a w h p m g =
     \<lparr>fb_addr = a, fb_width = w, fb_height = h, fb_format = 0x34325258,
      fb_pitches0 = p, fb_modifier = m, fb_obj0 = Some g\<rparr>"

text \<open>
  Neither method of the extractor is entered: the object has no \<open>filp\<close> with an
  \<open>f_mapping\<close>, and it is not an imported dma-buf.
\<close>

definition no_backend :: "drm_gem_object \<Rightarrow> bool" where
  "no_backend gem \<longleftrightarrow>
     (case filp gem of
        None \<Rightarrow> True
      | Some f \<Rightarrow> (case f_mapping f of None \<Rightarrow> True | Some m \<Rightarrow> False)) \<and>
     (case gem_dma_buf gem of None \<Rightarrow> True | Some db \<Rightarrow> \<not> import_attach gem)"

text \<open>
  A run at time \<open>n\<close> on a one-pixel linear framebuffer at address \<open>n\<close> whose page
  holds the byte \<open>b\<close>, the record such a run commits, and the ring after five of them.
\<close>

definition shmem_run :: "u64 \<Rightarrow> u8 \<Rightarrow> kernel_env \<times> drm_framebuffer \<times> ptr" where
  "shmem_run n b = (linux_env n, test_fb n 1 1 4 0 (shmem_gem b), 0)"

definition shmem_frame :: "u64 \<Rightarrow> u8 \<Rightarrow> fb_pixel_data" where
  "shmem_frame n b =
     \<lparr>fb = n, dev = 0, pixel_buffer = Some [b, b, b, b],
      buffer_size = 4, width = 1, height = 1, format = 0x34325258, pitch = 4,
      timestamp = n, valid = True, has_pixels = True, is_detiled = False,
      detected_tiling = INTEL_TILING_NONE\<rparr>"

definition full_ring :: capture_state where
  "full_ring =
     \<lparr>captured_fbs = [shmem_frame 1 1, shmem_frame 2 2, shmem_frame 3 3, shmem_frame 4 4,
                       shmem_frame 5 5],
      capture_count = 5, current_index = 0\<rparr>"

text \<open>
  What holds of every slot and of the three globals in every state the module reaches: a
  slot marked as having pixels is valid and owns a buffer of exactly \<open>buffer_size\<close>
  bytes, between 1 and \<open>MAX_CAPTURE_SIZE\<close>.
\<close>

definition slot_ok :: "fb_pixel_data \<Rightarrow> bool" where
  "slot_ok c \<longleftrightarrow>
     (has_pixels c \<longrightarrow>
        valid c \<and> 0 < buffer_size c \<and> buffer_size c \<le> MAX_CAPTURE_SIZE \<and>
        (case pixel_buffer c of None \<Rightarrow> False | Some b \<Rightarrow> length b = buffer_size c))"

definition store_inv :: "capture_state \<Rightarrow> bool" where
  "store_inv st \<longleftrightarrow>
     length (captured_fbs st) = MAX_FB_CAPTURE \<and> current_index st < MAX_FB_CAPTURE \<and>
     capture_count st \<le> MAX_FB_CAPTURE \<and> list_all slot_ok (captured_fbs st)"

text \<open>The ring after a sixth such run.\<close>

definition six_ring :: capture_state where
  "six_ring =
     \<lparr>captured_fbs = [shmem_frame 6 6, shmem_frame 2 2, shmem_frame 3 3, shmem_frame 4 4,
                       shmem_frame 5 5],
      capture_count = 5, current_index = 1\<rparr>"

text \<open>
  The offsets as the specification words them, over the natural numbers, to be compared
  with \<open>src_offset_of\<close> and \<open>dst_offset_of\<close>.
\<close>

definition spec_src_offset :: "nat \<Rightarrow> nat \<Rightarrow> nat \<Rightarrow> nat \<Rightarrow> nat \<Rightarrow> nat" where
  "spec_src_offset tile_w tile_h source_pitch x y =
     (let byte_x = x * 4;
          tile_x = byte_x div tile_w;
          tile_y = y div tile_h;
          tiles_per_row = source_pitch div tile_w;
          tile_index = tile_y * tiles_per_row + tile_x;
          in_tile_x = byte_x mod tile_w;
          in_tile_y = y mod tile_h
      in tile_index * tile_w * tile_h + in_tile_y * tile_w + in_tile_x)"

definition spec_dst_offset :: "nat \<Rightarrow> nat \<Rightarrow> nat \<Rightarrow> nat" where
  "spec_dst_offset width' x y = y * width' * 4 + x * 4"

section \<open>Basic facts\<close>

lemma u32_mod_512_dvd: "(p :: u32) mod 512 = 0 \<longleftrightarrow> 512 dvd unat p"
  by (simp add: word_eq_iff_unsigned[where ?'a=nat] unat_mod_distrib dvd_eq_mod_eq_0)

lemma linux_mods:
  "I915_FORMAT_MOD_X_TILED (linux_env t) = 0x0100000000000001"
  "I915_FORMAT_MOD_Y_TILED (linux_env t) = 0x0100000000000002"
  "I915_FORMAT_MOD_Yf_TILED (linux_env t) = 0x0100000000000003"
  by (simp_all add: linux_env_def fourcc_mod_code_def)

lemma upt_0_4: "[0..<4] = [0, 1, 2, 3]"
  by (simp add: upt_rec)

lemma init_state_slots:
  "init_state =
     \<lparr>captured_fbs = [zero_capture, zero_capture, zero_capture, zero_capture, zero_capture],
      capture_count = 0, current_index = 0\<rparr>"
  by (simp add: init_state_def MAX_FB_CAPTURE_def numeral_eq_Suc)

lemma new_capture_fields [simp]:
  "fb (new_capture env f d) = fb_addr f"
  "dev (new_capture env f d) = d"
  "width (new_capture env f d) = fb_width f"
  "height (new_capture env f d) = fb_height f"
  "format (new_capture env f d) = fb_format f"
  "pitch (new_capture env f d) = fb_pitches0 f"
  "timestamp (new_capture env f d) = ktime_get_ns env"
  "valid (new_capture env f d) = False"
  "has_pixels (new_capture env f d) = False"
  "is_detiled (new_capture env f d) = False"
  "detected_tiling (new_capture env f d) = detect_intel_tiling env (Some f)"
  "buffer_size (new_capture env f d) = expected_size (fb_height f) (fb_width f)"
  "pixel_buffer (new_capture env f d) =
     vmalloc (pixel_vmalloc env) (expected_size (fb_height f) (fb_width f))"
  by (simp_all add: new_capture_def zero_capture_def)

lemmas run_defs = capture_fb_pixels_def new_capture_def zero_capture_def expected_size_def
  MAX_CAPTURE_SIZE_def MAX_FB_CAPTURE_def vmalloc_def detect_intel_tiling_def
  extract_gem_pixels_def shmem_method_def dmabuf_method_def finish_extract_def memcpy_def
  PAGE_SIZE_def linux_env_def test_fb_def bare_gem_def shmem_gem_def fourcc_mod_code_def
  INTEL_TILE_X_WIDTH_def

section \<open>Tiling detection\<close>

text \<open>
  C3, as amended.  A modifier of zero gives no tiling whatever the pitch.  A nonzero
  modifier equal to one of the X, Y or Yf modifiers gives that mode.  A nonzero modifier
  that matches none of them gives X-tiling when the pitch is a multiple of 512 and no
  tiling otherwise.
\<close>

theorem detect_intel_tiling_by_modifier:
  assumes "distinct [I915_FORMAT_MOD_X_TILED env, I915_FORMAT_MOD_Y_TILED env,
                     I915_FORMAT_MOD_Yf_TILED env]"
  shows "(fb_modifier f = 0 \<longrightarrow> detect_intel_tiling env (Some f) = INTEL_TILING_NONE) \<and>
         (fb_modifier f \<noteq> 0 \<and> fb_modifier f = I915_FORMAT_MOD_X_TILED env \<longrightarrow>
            detect_intel_tiling env (Some f) = INTEL_TILING_X) \<and>
         (fb_modifier f \<noteq> 0 \<and> fb_modifier f = I915_FORMAT_MOD_Y_TILED env \<longrightarrow>
            detect_intel_tiling env (Some f) = INTEL_TILING_Y) \<and>
         (fb_modifier f \<noteq> 0 \<and> fb_modifier f = I915_FORMAT_MOD_Yf_TILED env \<longrightarrow>
            detect_intel_tiling env (Some f) = INTEL_TILING_YF) \<and>
         (fb_modifier f \<noteq> 0 \<and>
          fb_modifier f \<notin> {I915_FORMAT_MOD_X_TILED env, I915_FORMAT_MOD_Y_TILED env,
                            I915_FORMAT_MOD_Yf_TILED env} \<longrightarrow>
            detect_intel_tiling env (Some f) =
              (if 512 dvd unat (fb_pitches0 f) then INTEL_TILING_X else INTEL_TILING_NONE))"
  using assms
  by (auto simp: detect_intel_tiling_def INTEL_TILE_X_WIDTH_def u32_mod_512_dvd)

theorem detect_intel_tiling_by_modifier_witness:
  "detect_intel_tiling (linux_env 0) (Some (test_fb 1 1 1 512 0 bare_gem)) = INTEL_TILING_NONE \<and>
   detect_intel_tiling (linux_env 0) (Some (test_fb 1 1 1 100 0x0100000000000001 bare_gem)) =
     INTEL_TILING_X \<and>
   detect_intel_tiling (linux_env 0) (Some (test_fb 1 1 1 100 0x0100000000000002 bare_gem)) =
     INTEL_TILING_Y \<and>
   detect_intel_tiling (linux_env 0) (Some (test_fb 1 1 1 100 0x0100000000000003 bare_gem)) =
     INTEL_TILING_YF \<and>
   detect_intel_tiling (linux_env 0) (Some (test_fb 1 1 1 1024 7 bare_gem)) = INTEL_TILING_X \<and>
   detect_intel_tiling (linux_env 0) (Some (test_fb 1 1 1 100 7 bare_gem)) = INTEL_TILING_NONE"
  using detect_intel_tiling_by_modifier [of "linux_env 0" "test_fb 1 1 1 512 0 bare_gem"]
    detect_intel_tiling_by_modifier
      [of "linux_env 0" "test_fb 1 1 1 100 0x0100000000000001 bare_gem"]
    detect_intel_tiling_by_modifier
      [of "linux_env 0" "test_fb 1 1 1 100 0x0100000000000002 bare_gem"]
    detect_intel_tiling_by_modifier
      [of "linux_env 0" "test_fb 1 1 1 100 0x0100000000000003 bare_gem"]
    detect_intel_tiling_by_modifier [of "linux_env 0" "test_fb 1 1 1 1024 7 bare_gem"]
    detect_intel_tiling_by_modifier [of "linux_env 0" "test_fb 1 1 1 100 7 bare_gem"]
  by (simp add: linux_mods test_fb_def)

text \<open>
  C3 as stated fails for the linear modifier 0: it is none of the three known
  modifiers and the pitch 512 is a multiple of 512, yet no tiling is detected.
\<close>

theorem detect_zero_modifier_counterexample:
  "fb_modifier (test_fb 1 1 1 512 0 bare_gem) \<notin>
     {I915_FORMAT_MOD_X_TILED (linux_env 0), I915_FORMAT_MOD_Y_TILED (linux_env 0),
      I915_FORMAT_MOD_Yf_TILED (linux_env 0)} \<and>
   512 dvd unat (fb_pitches0 (test_fb 1 1 1 512 0 bare_gem)) \<and>
   detect_intel_tiling (linux_env 0) (Some (test_fb 1 1 1 512 0 bare_gem)) = INTEL_TILING_NONE"
  by (simp add: linux_mods test_fb_def detect_intel_tiling_def)

section \<open>The extractor and the pipeline on their failure paths\<close>

lemma shmem_method_no_backend:
  "no_backend gem \<Longrightarrow> shmem_method env gem n t = Some (0, t)"
  by (auto simp: no_backend_def shmem_method_def split: option.splits)

lemma dmabuf_method_no_backend:
  "no_backend gem \<Longrightarrow> dmabuf_method gem n t = Some NotMapped"
  by (auto simp: no_backend_def dmabuf_method_def split: option.splits)

lemma extract_no_backend:
  assumes "no_backend gem"
    and "detected_tiling c \<noteq> INTEL_TILING_NONE \<longrightarrow>
           vmalloc (raw_vmalloc env) (unat (height c * pitch c)) \<noteq> None"
  shows "extract_gem_pixels env (Some gem) c = Some (Inl ENODATA, c)"
  using assms
  by (auto simp: extract_gem_pixels_def Let_def shmem_method_no_backend dmabuf_method_no_backend)

lemma extract_raw_alloc_fails:
  assumes "detected_tiling c \<noteq> INTEL_TILING_NONE"
    and "vmalloc (raw_vmalloc env) (unat (height c * pitch c)) = None"
  shows "extract_gem_pixels env (Some gem) c = Some (Inl ENOMEM, c)"
  using assms by (simp add: extract_gem_pixels_def Let_def)

lemma capture_enomem:
  assumes "fb_obj0 f = Some gem" and "current_index st < length (captured_fbs st)"
    and "vmalloc (pixel_vmalloc env) (expected_size (fb_height f) (fb_width f)) = None"
  shows "capture_fb_pixels env (Some f) d st =
           Some (Inl ENOMEM,
                 st\<lparr>captured_fbs := (captured_fbs st)[current_index st := new_capture env f d]\<rparr>)"
  using assms by (simp add: capture_fb_pixels_def)

lemma capture_extract_error:
  assumes "fb_obj0 f = Some gem" and "current_index st < length (captured_fbs st)"
    and "vmalloc (pixel_vmalloc env) (expected_size (fb_height f) (fb_width f)) \<noteq> None"
    and "extract_gem_pixels env (Some gem) (new_capture env f d) = Some (Inl e, c)"
  shows "capture_fb_pixels env (Some f) d st =
           Some (Inr (),
                 st\<lparr>captured_fbs := (captured_fbs st)
                        [current_index st := c\<lparr>has_pixels := False, valid := True\<rparr>],
                    current_index := (current_index st + 1) mod MAX_FB_CAPTURE,
                    capture_count := (if capture_count st < MAX_FB_CAPTURE
                                      then capture_count st + 1 else capture_count st)\<rparr>)"
  using assms by (simp add: capture_fb_pixels_def)

lemma capture_shmem_run:
  assumes "current_index st < length (captured_fbs st)"
  shows "capture_fb_pixels (linux_env t) (Some (test_fb n 1 1 4 0 (shmem_gem b))) 0 st =
     Some (Inr (),
       st\<lparr>captured_fbs := (captured_fbs st)
              [current_index st := (shmem_frame n b)\<lparr>timestamp := t\<rparr>],
          current_index := (current_index st + 1) mod 5,
          capture_count := (if capture_count st < 5 then capture_count st + 1
                            else capture_count st)\<rparr>)"
  using assms
  by (simp add: run_defs Let_def shmem_copy.simps shmem_frame_def upt_0_4)

lemma run_all_full_ring:
  "run_all [shmem_run 1 1, shmem_run 2 2, shmem_run 3 3, shmem_run 4 4, shmem_run 5 5]
     init_state = Some full_ring"
  by (simp add: shmem_run_def capture_shmem_run init_state_slots full_ring_def shmem_frame_def)

text \<open>
  C8.  When neither extraction method applies to the buffer object (and the buffers
  the run needs could be allocated), the extractor fails with \<open>ENODATA\<close>, and the
  pipeline run still returns 0: the slot holds the new frame's metadata with
  \<open>valid = True\<close> and \<open>has_pixels = False\<close>, the ring index moves on and the count
  grows up to the capacity.
\<close>

theorem capture_without_backend:
  assumes "fb_obj0 f = Some gem" and "no_backend gem"
    and "current_index st < length (captured_fbs st)"
    and "vmalloc (pixel_vmalloc env) (expected_size (fb_height f) (fb_width f)) \<noteq> None"
    and "detect_intel_tiling env (Some f) \<noteq> INTEL_TILING_NONE \<longrightarrow>
           vmalloc (raw_vmalloc env) (unat (fb_height f * fb_pitches0 f)) \<noteq> None"
  shows "extract_gem_pixels env (Some gem) (new_capture env f d) =
           Some (Inl ENODATA, new_capture env f d) \<and>
         (\<exists>st'. capture_fb_pixels env (Some f) d st = Some (Inr (), st') \<and>
            captured_fbs st' ! current_index st =
              (new_capture env f d)\<lparr>has_pixels := False, valid := True\<rparr> \<and>
            valid (captured_fbs st' ! current_index st) \<and>
            \<not> has_pixels (captured_fbs st' ! current_index st) \<and>
            current_index st' = (current_index st + 1) mod MAX_FB_CAPTURE \<and>
            capture_count st' =
              (if capture_count st < MAX_FB_CAPTURE then capture_count st + 1
               else capture_count st))"
proof -
  have ex: "extract_gem_pixels env (Some gem) (new_capture env f d) =
              Some (Inl ENODATA, new_capture env f d)"
    using assms(2,5) by (intro extract_no_backend) simp_all
  show ?thesis
    using assms(3) by (simp add: ex capture_extract_error [OF assms(1,3,4) ex])
qed

theorem capture_without_backend_witness:
  "extract_gem_pixels (linux_env 7) (Some bare_gem)
     (new_capture (linux_env 7) (test_fb 9 1 1 4 0 bare_gem) 0) =
     Some (Inl ENODATA, new_capture (linux_env 7) (test_fb 9 1 1 4 0 bare_gem) 0) \<and>
   (\<exists>st'. capture_fb_pixels (linux_env 7) (Some (test_fb 9 1 1 4 0 bare_gem)) 0 init_state =
            Some (Inr (), st') \<and>
      fb (captured_fbs st' ! 0) = 9 \<and> timestamp (captured_fbs st' ! 0) = 7 \<and>
      valid (captured_fbs st' ! 0) \<and> \<not> has_pixels (captured_fbs st' ! 0) \<and>
      current_index st' = 1 \<and> capture_count st' = 1)"
proof -
  have "extract_gem_pixels (linux_env 7) (Some bare_gem)
          (new_capture (linux_env 7) (test_fb 9 1 1 4 0 bare_gem) 0) =
          Some (Inl ENODATA, new_capture (linux_env 7) (test_fb 9 1 1 4 0 bare_gem) 0) \<and>
        (\<exists>st'. capture_fb_pixels (linux_env 7) (Some (test_fb 9 1 1 4 0 bare_gem)) 0 init_state =
                 Some (Inr (), st') \<and>
           captured_fbs st' ! current_index init_state =
             (new_capture (linux_env 7) (test_fb 9 1 1 4 0 bare_gem) 0)
               \<lparr>has_pixels := False, valid := True\<rparr> \<and>
           valid (captured_fbs st' ! current_index init_state) \<and>
           \<not> has_pixels (captured_fbs st' ! current_index init_state) \<and>
           current_index st' = (current_index init_state + 1) mod MAX_FB_CAPTURE \<and>
           capture_count st' =
             (if capture_count init_state < MAX_FB_CAPTURE then capture_count init_state + 1
              else capture_count init_state))"
    by (rule capture_without_backend [where gem = bare_gem])
       (simp_all add: test_fb_def bare_gem_def no_backend_def init_state_slots vmalloc_def
          linux_env_def expected_size_def MAX_CAPTURE_SIZE_def detect_intel_tiling_def)
  then show ?thesis
    by (auto simp: init_state_slots MAX_FB_CAPTURE_def) (simp_all add: test_fb_def linux_env_def)
qed

text \<open>
  C10.  When \<open>vmalloc\<close> of the pixel buffer fails, the run returns \<open>-ENOMEM\<close> with
  \<open>current_index\<close> and \<open>capture_count\<close> as they were, and the targeted slot holds the
  zeroed and refilled record: not valid, no pixel data, no buffer.  Whatever frame the
  slot held before is gone, although no new frame was committed; the other slots are
  untouched.
\<close>

theorem pixel_alloc_failure_destroys_slot:
  assumes "fb_obj0 f = Some gem" and "current_index st < length (captured_fbs st)"
    and "vmalloc (pixel_vmalloc env) (expected_size (fb_height f) (fb_width f)) = None"
  shows "\<exists>st'. capture_fb_pixels env (Some f) d st = Some (Inl ENOMEM, st') \<and>
           current_index st' = current_index st \<and>
           capture_count st' = capture_count st \<and>
           \<not> valid (captured_fbs st' ! current_index st) \<and>
           \<not> has_pixels (captured_fbs st' ! current_index st) \<and>
           pixel_buffer (captured_fbs st' ! current_index st) = None \<and>
           (\<forall>i. i \<noteq> current_index st \<longrightarrow> captured_fbs st' ! i = captured_fbs st ! i)"
  using assms by (simp add: capture_enomem)

theorem pixel_alloc_failure_destroys_slot_witness:
  "run_all [shmem_run 1 1, shmem_run 2 2, shmem_run 3 3, shmem_run 4 4, shmem_run 5 5]
     init_state = Some full_ring \<and>
   current_index full_ring = 0 \<and> capture_count full_ring = 5 \<and>
   valid (captured_fbs full_ring ! 0) \<and> has_pixels (captured_fbs full_ring ! 0) \<and>
   pixel_buffer (captured_fbs full_ring ! 0) = Some [1, 1, 1, 1] \<and>
   (\<exists>st'. capture_fb_pixels ((linux_env 6)\<lparr>pixel_vmalloc := None\<rparr>)
             (Some (test_fb 6 1 1 4 0 (shmem_gem 6))) 0 full_ring = Some (Inl ENOMEM, st') \<and>
      current_index st' = 0 \<and> capture_count st' = 5 \<and>
      \<not> valid (captured_fbs st' ! 0) \<and> \<not> has_pixels (captured_fbs st' ! 0) \<and>
      pixel_buffer (captured_fbs st' ! 0) = None)"
proof -
  have idx: "current_index full_ring = 0" and cnt: "capture_count full_ring = 5"
    by (simp_all add: full_ring_def)
  obtain st' where
    "capture_fb_pixels ((linux_env 6)\<lparr>pixel_vmalloc := None\<rparr>)
       (Some (test_fb 6 1 1 4 0 (shmem_gem 6))) 0 full_ring = Some (Inl ENOMEM, st')"
    "current_index st' = current_index full_ring" "capture_count st' = capture_count full_ring"
    "\<not> valid (captured_fbs st' ! current_index full_ring)"
    "\<not> has_pixels (captured_fbs st' ! current_index full_ring)"
    "pixel_buffer (captured_fbs st' ! current_index full_ring) = None"
    using pixel_alloc_failure_destroys_slot
      [of "test_fb 6 1 1 4 0 (shmem_gem 6)" "shmem_gem 6" full_ring
          "(linux_env 6)\<lparr>pixel_vmalloc := None\<rparr>" 0]
    by (auto simp: test_fb_def vmalloc_def linux_env_def full_ring_def)
  then show ?thesis
    by (auto simp: run_all_full_ring idx cnt) (simp_all add: full_ring_def shmem_frame_def)
qed

text \<open>
  C2, as amended.  When \<open>vmalloc\<close> of the pixel buffer fails, the run fails with
  \<open>-ENOMEM\<close> and the targeted slot is left invalid with no pixel data.  When the pixel
  buffer is allocated but \<open>vmalloc\<close> of the raw buffer for detiling fails, the extractor
  returns \<open>-ENOMEM\<close>, which the pipeline treats like any other extraction failure: the
  run returns 0 and the frame is committed as metadata only, with \<open>valid = True\<close> and
  \<open>has_pixels = False\<close>, and the ring counters move on.
\<close>

theorem alloc_failure_outcomes:
  assumes "fb_obj0 f = Some gem" and "current_index st < length (captured_fbs st)"
  shows "(vmalloc (pixel_vmalloc env) (expected_size (fb_height f) (fb_width f)) = None \<longrightarrow>
            (\<exists>st'. capture_fb_pixels env (Some f) d st = Some (Inl ENOMEM, st') \<and>
               \<not> valid (captured_fbs st' ! current_index st) \<and>
               \<not> has_pixels (captured_fbs st' ! current_index st) \<and>
               pixel_buffer (captured_fbs st' ! current_index st) = None)) \<and>
         (vmalloc (pixel_vmalloc env) (expected_size (fb_height f) (fb_width f)) \<noteq> None \<and>
          detect_intel_tiling env (Some f) \<noteq> INTEL_TILING_NONE \<and>
          vmalloc (raw_vmalloc env) (unat (fb_height f * fb_pitches0 f)) = None \<longrightarrow>
            extract_gem_pixels env (Some gem) (new_capture env f d) =
              Some (Inl ENOMEM, new_capture env f d) \<and>
            (\<exists>st'. capture_fb_pixels env (Some f) d st = Some (Inr (), st') \<and>
               valid (captured_fbs st' ! current_index st) \<and>
               \<not> has_pixels (captured_fbs st' ! current_index st) \<and>
               current_index st' = (current_index st + 1) mod MAX_FB_CAPTURE \<and>
               capture_count st' =
                 (if capture_count st < MAX_FB_CAPTURE then capture_count st + 1
                  else capture_count st)))"
proof (intro conjI impI)
  assume "vmalloc (pixel_vmalloc env) (expected_size (fb_height f) (fb_width f)) = None"
  then show "\<exists>st'. capture_fb_pixels env (Some f) d st = Some (Inl ENOMEM, st') \<and>
               \<not> valid (captured_fbs st' ! current_index st) \<and>
               \<not> has_pixels (captured_fbs st' ! current_index st) \<and>
               pixel_buffer (captured_fbs st' ! current_index st) = None"
    using assms by (simp add: capture_enomem)
next
  assume a: "vmalloc (pixel_vmalloc env) (expected_size (fb_height f) (fb_width f)) \<noteq> None \<and>
          detect_intel_tiling env (Some f) \<noteq> INTEL_TILING_NONE \<and>
          vmalloc (raw_vmalloc env) (unat (fb_height f * fb_pitches0 f)) = None"
  then show ex: "extract_gem_pixels env (Some gem) (new_capture env f d) =
              Some (Inl ENOMEM, new_capture env f d)"
    by (intro extract_raw_alloc_fails) simp_all
  from a have p: "vmalloc (pixel_vmalloc env) (expected_size (fb_height f) (fb_width f)) \<noteq> None"
    by simp
  show "\<exists>st'. capture_fb_pixels env (Some f) d st = Some (Inr (), st') \<and>
               valid (captured_fbs st' ! current_index st) \<and>
               \<not> has_pixels (captured_fbs st' ! current_index st) \<and>
               current_index st' = (current_index st + 1) mod MAX_FB_CAPTURE \<and>
               capture_count st' =
                 (if capture_count st < MAX_FB_CAPTURE then capture_count st + 1
                  else capture_count st)"
    using assms(2) by (simp add: capture_extract_error [OF assms(1,2) p ex])
qed

theorem alloc_failure_outcomes_witness:
  "(\<exists>st'. capture_fb_pixels ((linux_env 0)\<lparr>pixel_vmalloc := None\<rparr>)
             (Some (test_fb 1 1 1 512 0x0100000000000001 (shmem_gem 7))) 0 init_state =
             Some (Inl ENOMEM, st') \<and>
      \<not> valid (captured_fbs st' ! 0) \<and> \<not> has_pixels (captured_fbs st' ! 0) \<and>
      pixel_buffer (captured_fbs st' ! 0) = None) \<and>
   extract_gem_pixels ((linux_env 0)\<lparr>raw_vmalloc := None\<rparr>) (Some (shmem_gem 7))
     (new_capture ((linux_env 0)\<lparr>raw_vmalloc := None\<rparr>)
        (test_fb 1 1 1 512 0x0100000000000001 (shmem_gem 7)) 0) =
     Some (Inl ENOMEM,
           new_capture ((linux_env 0)\<lparr>raw_vmalloc := None\<rparr>)
             (test_fb 1 1 1 512 0x0100000000000001 (shmem_gem 7)) 0) \<and>
   (\<exists>st'. capture_fb_pixels ((linux_env 0)\<lparr>raw_vmalloc := None\<rparr>)
             (Some (test_fb 1 1 1 512 0x0100000000000001 (shmem_gem 7))) 0 init_state =
             Some (Inr (), st') \<and>
      valid (captured_fbs st' ! 0) \<and> \<not> has_pixels (captured_fbs st' ! 0) \<and>
      current_index st' = 1 \<and> capture_count st' = 1)"
  using alloc_failure_outcomes
      [of "test_fb 1 1 1 512 0x0100000000000001 (shmem_gem 7)" "shmem_gem 7" init_state
          "(linux_env 0)\<lparr>pixel_vmalloc := None\<rparr>" 0]
    alloc_failure_outcomes
      [of "test_fb 1 1 1 512 0x0100000000000001 (shmem_gem 7)" "shmem_gem 7" init_state
          "(linux_env 0)\<lparr>raw_vmalloc := None\<rparr>" 0]
  by (simp add: test_fb_def init_state_slots vmalloc_def linux_env_def expected_size_def
      MAX_CAPTURE_SIZE_def MAX_FB_CAPTURE_def detect_intel_tiling_def fourcc_mod_code_def)

text \<open>
  C2 as stated fails for the raw buffer: with an X-tiled framebuffer and a failing
  \<open>vmalloc\<close> of the raw buffer the run returns 0, not \<open>-ENOMEM\<close>, and the slot is
  valid.
\<close>

theorem raw_alloc_failure_counterexample:
  "detect_intel_tiling ((linux_env 0)\<lparr>raw_vmalloc := None\<rparr>)
     (Some (test_fb 1 1 1 512 0x0100000000000001 (shmem_gem 7))) = INTEL_TILING_X \<and>
   vmalloc (raw_vmalloc ((linux_env 0)\<lparr>raw_vmalloc := None\<rparr>)) (unat (1 * 512 :: u32)) = None \<and>
   (\<exists>st'. capture_fb_pixels ((linux_env 0)\<lparr>raw_vmalloc := None\<rparr>)
             (Some (test_fb 1 1 1 512 0x0100000000000001 (shmem_gem 7))) 0 init_state =
             Some (Inr (), st') \<and>
      valid (captured_fbs st' ! 0) \<and> \<not> has_pixels (captured_fbs st' ! 0) \<and>
      current_index st' = 1 \<and> capture_count st' = 1)"
  by (simp add: run_defs Let_def init_state_slots)

section \<open>Loops and buffer lengths\<close>

lemma for_upto_indexed:
  assumes "I 0 s"
    and "\<And>i s. i < n \<Longrightarrow> I i s \<Longrightarrow> \<exists>s'. body i s = Some s' \<and> I (Suc i) s'"
  shows "\<exists>s'. for_upto n body s = Some s' \<and> I n s'"
  using assms(2)
proof (induction n)
  case 0
  with assms(1) show ?case by simp
next
  case (Suc n)
  then obtain s1 where "for_upto n body s = Some s1" "I n s1"
    by (metis less_Suc_eq)
  moreover obtain s2 where "body n s1 = Some s2" "I (Suc n) s2"
    using Suc.prems [of n s1] \<open>I n s1\<close> by auto
  ultimately show ?case by simp
qed

lemma for_upto_preserves:
  assumes "for_upto n body s = Some s'" and "P s"
    and "\<And>i s s'. i < n \<Longrightarrow> P s \<Longrightarrow> body i s = Some s' \<Longrightarrow> P s'"
  shows "P s'"
  using assms(1,3)
proof (induction n arbitrary: s')
  case 0
  with assms(2) show ?case by simp
next
  case (Suc n)
  from Suc.prems(1) obtain s1 where s1: "for_upto n body s = Some s1" "body n s1 = Some s'"
    by (auto split: option.splits)
  have "P s1" using Suc.IH [OF s1(1)] Suc.prems(2) by (metis less_Suc_eq)
  then show ?case using Suc.prems(2) [of n s1 s'] s1(2) by simp
qed

lemma copy_byte_length:
  "copy_byte src sl dl so d k dst = Some dst' \<Longrightarrow> length dst' = length dst"
  by (auto simp: copy_byte_def split: if_splits)

lemma copy_pixel_length:
  assumes "copy_pixel src tw th w h p y x dst = Some dst'"
  shows "length dst' = length dst"
  using assms unfolding copy_pixel_def
  by (rule for_upto_preserves [where P = "\<lambda>d. length d = length dst"])
     (auto dest: copy_byte_length)

lemma convert_length:
  assumes "convert_tiled_to_linear src (Some dst) w h p t = Some (Inr dst')"
  shows "length dst' = length dst"
proof -
  from assms obtain s tw th where
    run: "for_upto (unat h) (\<lambda>y. for_upto (unat w) (copy_pixel s tw th w h p y)) dst = Some dst'"
    by (auto simp: convert_tiled_to_linear_def split: option.splits)
  have row: "length d' = length dst"
    if "for_upto (unat w) (copy_pixel s tw th w h p y) d = Some d'" "length d = length dst"
    for y d d'
    using that(1)
    by (rule for_upto_preserves [where P = "\<lambda>d. length d = length dst"])
       (auto simp: that(2) dest: copy_pixel_length)
  show ?thesis
    using run
    by (rule for_upto_preserves [where P = "\<lambda>d. length d = length dst"]) (auto intro: row)
qed

lemma memcpy_length: "memcpy target off bytes = Some target' \<Longrightarrow> length target' = length target"
  by (auto simp: memcpy_def split: if_splits)

lemma shmem_copy_length:
  "shmem_copy m ps np ts i c t = Some (c', t') \<Longrightarrow> length t' = length t"
proof (induction m ps np ts i c t rule: shmem_copy.induct)
  case (1 mapping page_size num_pages target_sz index copied target)
  show ?case
  proof (cases "copied < target_sz \<and> index < num_pages")
    case False
    with "1.prems" show ?thesis by (simp add: shmem_copy.simps)
  next
    case True
    show ?thesis
    proof (cases "mapping index")
      case None
      with True "1.prems" "1.IH"(1) show ?thesis
        by (simp add: shmem_copy.simps [of mapping page_size num_pages target_sz index])
    next
      case (Some pg)
      show ?thesis
      proof (cases pg)
        case None
        with Some True "1.prems" "1.IH"(2) show ?thesis
          by (simp add: shmem_copy.simps [of mapping page_size num_pages target_sz index])
      next
        case (Some kaddr)
        with \<open>mapping index = Some pg\<close> True "1.prems" obtain t1 where
          t1: "memcpy target copied (map kaddr [0..<min page_size (target_sz - copied)]) = Some t1"
          and rest: "shmem_copy mapping page_size num_pages target_sz (index + 1)
                       (copied + min page_size (target_sz - copied)) t1 = Some (c', t')"
          by (auto simp: shmem_copy.simps [of mapping page_size num_pages target_sz index]
              split: option.splits)
        have "length t' = length t1"
          using "1.IH"(3) [OF True \<open>mapping index = Some pg\<close> Some t1 rest] .
        with memcpy_length [OF t1] show ?thesis by simp
      qed
    qed
  qed
qed

lemma shmem_method_length:
  "shmem_method env gem n t = Some (c, t') \<Longrightarrow> length t' = length t"
  by (auto simp: shmem_method_def split: option.splits dest: shmem_copy_length)

lemma dmabuf_method_length:
  "dmabuf_method gem n t = Some (Copied t') \<Longrightarrow> length t' = length t"
  by (auto simp: dmabuf_method_def split: option.splits if_splits dest: memcpy_length)

text \<open>The extractor changes nothing of the record but the pixel bytes and \<open>is_detiled\<close>.\<close>

lemma finish_extract_effect:
  assumes "finish_extract nd t c = Some (r, c')"
  shows "c' = c\<lparr>pixel_buffer := pixel_buffer c', is_detiled := is_detiled c'\<rparr>"
    and "r \<noteq> Inr () \<Longrightarrow> c' = c"
    and "pixel_buffer c = Some b \<Longrightarrow> nd \<or> length t = length b \<Longrightarrow>
           \<exists>b'. pixel_buffer c' = Some b' \<and> length b' = length b"
  using assms
  by (auto simp: finish_extract_def split: if_splits option.splits sum.splits
      dest: convert_length)

lemma extract_effect:
  assumes "extract_gem_pixels env g c = Some (r, c')"
  shows "c' = c\<lparr>pixel_buffer := pixel_buffer c', is_detiled := is_detiled c'\<rparr>"
    and "r \<noteq> Inr () \<Longrightarrow> c' = c"
    and "pixel_buffer c = Some b \<Longrightarrow> \<exists>b'. pixel_buffer c' = Some b' \<and> length b' = length b"
proof -
  show "c' = c\<lparr>pixel_buffer := pixel_buffer c', is_detiled := is_detiled c'\<rparr>"
    using assms
    by (auto simp: extract_gem_pixels_def Let_def
        split: option.splits if_splits prod.splits dmabuf_result.splits
        dest: finish_extract_effect(1))
  show "c' = c" if "r \<noteq> Inr ()"
    using assms that
    by (auto simp: extract_gem_pixels_def Let_def
        split: option.splits if_splits prod.splits dmabuf_result.splits
        dest: finish_extract_effect(2))
  show "\<exists>b'. pixel_buffer c' = Some b' \<and> length b' = length b" if pb: "pixel_buffer c = Some b"
  proof (cases g)
    case None
    with assms pb show ?thesis by (simp add: extract_gem_pixels_def)
  next
    case (Some gem)
    let ?nd = "detected_tiling c \<noteq> INTEL_TILING_NONE"
    show ?thesis
    proof (cases "r = Inr ()")
      case False
      then have "c' = c" by fact
      with pb show ?thesis by simp
    next
      case True
      with assms Some obtain t where fin: "finish_extract ?nd t c = Some (r, c')"
        and len: "?nd \<or> length t = length b"
        using pb
        by (auto simp: extract_gem_pixels_def Let_def
            split: option.splits if_splits prod.splits dmabuf_result.splits
            dest!: shmem_method_length dmabuf_method_length)
      from finish_extract_effect(3) [OF fin pb len] show ?thesis .
    qed
  qed
qed

section \<open>One committed run\<close>

lemma expected_size_le: "expected_size h w \<le> MAX_CAPTURE_SIZE"
  by (simp add: expected_size_def)

lemma vmalloc_Some: "vmalloc o' n = Some b \<Longrightarrow> length b = n \<and> 0 < n"
  by (auto simp: vmalloc_def split: option.splits if_splits)

lemma capture_commit:
  assumes "capture_fb_pixels env (Some f) d st = Some (Inr u, st')"
  shows "\<exists>c. captured_fbs st' = (captured_fbs st)[current_index st := c] \<and>
           current_index st < length (captured_fbs st) \<and>
           valid c \<and> slot_ok c \<and> fb c = fb_addr f \<and> dev c = d \<and>
           width c = fb_width f \<and> height c = fb_height f \<and> pitch c = fb_pitches0 f \<and>
           format c = fb_format f \<and> timestamp c = ktime_get_ns env \<and>
           buffer_size c = expected_size (fb_height f) (fb_width f) \<and>
           current_index st' = (current_index st + 1) mod MAX_FB_CAPTURE \<and>
           capture_count st' =
             (if capture_count st < MAX_FB_CAPTURE then capture_count st + 1
              else capture_count st)"
proof -
  from assms obtain gem where gem: "fb_obj0 f = Some gem"
    by (auto simp: capture_fb_pixels_def split: option.splits)
  let ?new = "new_capture env f d"
  from assms gem have idx: "current_index st < length (captured_fbs st)"
    by (auto simp: capture_fb_pixels_def split: if_splits)
  from assms gem idx obtain b0 where b0: "pixel_buffer ?new = Some b0"
    by (auto simp: capture_fb_pixels_def split: if_splits)
  from assms gem idx b0 obtain r c1 where
    ex: "extract_gem_pixels env (Some gem) ?new = Some (r, c1)"
    and st': "st' = st\<lparr>captured_fbs := (captured_fbs st)
                     [current_index st :=
                        (if r = Inr () then c1\<lparr>has_pixels := True, valid := True\<rparr>
                         else c1\<lparr>has_pixels := False, valid := True\<rparr>)],
                   current_index := (current_index st + 1) mod MAX_FB_CAPTURE,
                   capture_count := (if capture_count st < MAX_FB_CAPTURE
                                     then capture_count st + 1 else capture_count st)\<rparr>"
    by (auto simp: capture_fb_pixels_def split: option.splits)
  let ?slot = "if r = Inr () then c1\<lparr>has_pixels := True, valid := True\<rparr>
            else c1\<lparr>has_pixels := False, valid := True\<rparr>"
  have eq: "c1 = ?new\<lparr>pixel_buffer := pixel_buffer c1, is_detiled := is_detiled c1\<rparr>"
    by (rule extract_effect(1) [OF ex])
  obtain b1 where b1: "pixel_buffer c1 = Some b1" "length b1 = length b0"
    using extract_effect(3) [OF ex b0] by auto
  have len0: "length b0 = expected_size (fb_height f) (fb_width f)"
    "0 < expected_size (fb_height f) (fb_width f)"
    using b0 vmalloc_Some by (auto simp del: new_capture_fields simp: new_capture_fields(13))
  have fields: "fb c1 = fb_addr f" "dev c1 = d" "width c1 = fb_width f"
    "height c1 = fb_height f" "pitch c1 = fb_pitches0 f" "format c1 = fb_format f"
    "timestamp c1 = ktime_get_ns env"
    "buffer_size c1 = expected_size (fb_height f) (fb_width f)"
    by (subst eq, simp)+
  have "slot_ok ?slot"
    using b1 len0 fields(8) by (simp add: slot_ok_def expected_size_le)
  moreover have "valid ?slot" by simp
  ultimately show ?thesis
    using idx fields by (intro exI [of _ ?slot]) (simp add: st')
qed

lemma capture_preserves_inv:
  assumes "capture_fb_pixels env fbp d st = Some (r, st')" and "store_inv st"
  shows "store_inv st'"
proof (cases r)
  case (Inr u)
  with assms(1) obtain f where f: "fbp = Some f"
    by (auto simp: capture_fb_pixels_def split: option.splits)
  from capture_commit [of env f d st u st'] assms(1) Inr f obtain c where
    c: "captured_fbs st' = (captured_fbs st)[current_index st := c]" "slot_ok c"
      "current_index st' = (current_index st + 1) mod MAX_FB_CAPTURE"
      "capture_count st' = (if capture_count st < MAX_FB_CAPTURE then capture_count st + 1
                            else capture_count st)"
    by auto
  show ?thesis
    using assms(2) c
    by (auto simp: store_inv_def MAX_FB_CAPTURE_def list_all_length nth_list_update)
next
  case (Inl e)
  show ?thesis
  proof (cases "st' = st")
    case True
    with assms(2) show ?thesis by simp
  next
    case False
    with assms(1) Inl obtain f where
      st': "st' = st\<lparr>captured_fbs := (captured_fbs st)[current_index st := new_capture env f d]\<rparr>"
      by (auto simp: capture_fb_pixels_def split: option.splits if_splits)
    have "slot_ok (new_capture env f d)" by (simp add: slot_ok_def)
    with assms(2) show ?thesis
      by (auto simp: st' store_inv_def list_all_length nth_list_update)
  qed
qed

lemma init_state_inv: "store_inv init_state"
  by (simp add: store_inv_def init_state_def MAX_FB_CAPTURE_def slot_ok_def zero_capture_def
      list_all_length)

lemma reachable_inv: "reachable st \<Longrightarrow> store_inv st"
  by (induction rule: reachable.induct) (auto intro: init_state_inv capture_preserves_inv)

lemma run_all_reachable:
  "reachable st \<Longrightarrow> run_all rs st = Some st' \<Longrightarrow> reachable st'"
proof (induction rs arbitrary: st)
  case Nil
  then show ?case by simp
next
  case (Cons r rs)
  obtain env f d where r: "r = (env, f, d)" by (cases r)
  from Cons.prems(2) obtain u st1 where
    s1: "capture_fb_pixels env (Some f) d st = Some (Inr u, st1)" "run_all rs st1 = Some st'"
    by (auto simp: r split: option.splits sum.splits)
  from Cons.prems(1) s1(1) have "reachable st1" by (rule reachable_capture)
  then show ?case using s1(2) by (rule Cons.IH)
qed

lemma run_all_snoc:
  "run_all (rs @ [r]) st =
     (case run_all rs st of None \<Rightarrow> None | Some st1 \<Rightarrow> run_all [r] st1)"
  by (induction rs st rule: run_all.induct) (auto split: option.splits sum.splits)

section \<open>The ring buffer\<close>

lemma mod5_ne: "(j::nat) < n \<Longrightarrow> n \<le> j + 4 \<Longrightarrow> j mod 5 \<noteq> n mod 5"
proof
  assume a: "j < n" "n \<le> j + 4" "j mod 5 = n mod 5"
  then have "(n - j) mod 5 = 0"
    by (metis mod_eq_dvd_iff_nat less_imp_le dvd_eq_mod_eq_0)
  moreover from a have "0 < n - j" "n - j < 5" by auto
  ultimately show False by auto
qed

lemma ring_after_runs_aux:
  assumes "run_all rs init_state = Some st"
  shows "length (captured_fbs st) = 5 \<and> capture_count st = min (length rs) 5 \<and>
         current_index st = length rs mod 5 \<and>
         (\<forall>i<5. valid (captured_fbs st ! i) \<longleftrightarrow> i < length rs) \<and>
         (\<forall>j<length rs. length rs \<le> j + 5 \<longrightarrow>
            fb (captured_fbs st ! (j mod 5)) = fb_addr (fst (snd (rs ! j))) \<and>
            timestamp (captured_fbs st ! (j mod 5)) = ktime_get_ns (fst (rs ! j)))"
  using assms
proof (induction rs arbitrary: st rule: rev_induct)
  case Nil
  then show ?case by (auto simp: init_state_def MAX_FB_CAPTURE_def zero_capture_def)
next
  case (snoc r rs)
  obtain env f d where r: "r = (env, f, d)" by (cases r)
  from snoc.prems obtain s1 u where s1: "run_all rs init_state = Some s1"
    and step: "capture_fb_pixels env (Some f) d s1 = Some (Inr u, st)"
    by (auto simp: run_all_snoc r split: option.splits sum.splits)
  let ?n = "length rs"
  from snoc.IH [OF s1] have l1: "length (captured_fbs s1) = 5"
    and c1: "capture_count s1 = min ?n 5" and i1: "current_index s1 = ?n mod 5"
    and v1: "\<forall>i<5. valid (captured_fbs s1 ! i) \<longleftrightarrow> i < ?n"
    and f1: "\<forall>j<?n. ?n \<le> j + 5 \<longrightarrow>
               fb (captured_fbs s1 ! (j mod 5)) = fb_addr (fst (snd (rs ! j))) \<and>
               timestamp (captured_fbs s1 ! (j mod 5)) = ktime_get_ns (fst (rs ! j))"
    by simp_all
  from capture_commit [OF step] obtain c where
    c: "captured_fbs st = (captured_fbs s1)[current_index s1 := c]" "valid c"
      "fb c = fb_addr f" "timestamp c = ktime_get_ns env"
      "current_index st = (current_index s1 + 1) mod MAX_FB_CAPTURE"
      "capture_count st = (if capture_count s1 < MAX_FB_CAPTURE then capture_count s1 + 1
                           else capture_count s1)"
    by blast
  have slots: "captured_fbs st = (captured_fbs s1)[?n mod 5 := c]"
    using c(1) i1 by simp
  have len: "length (captured_fbs st) = 5" using l1 slots by simp
  have cnt: "capture_count st = min (length (rs @ [r])) 5"
    using c1 c(6) by (simp add: MAX_FB_CAPTURE_def min_def)
  have idx: "current_index st = length (rs @ [r]) mod 5"
    using i1 c(5) by (simp add: MAX_FB_CAPTURE_def mod_Suc_eq)
  have val: "\<forall>i<5. valid (captured_fbs st ! i) \<longleftrightarrow> i < length (rs @ [r])"
  proof (intro allI impI)
    fix i :: nat
    assume i: "i < 5"
    show "valid (captured_fbs st ! i) \<longleftrightarrow> i < length (rs @ [r])"
    proof (cases "i = ?n mod 5")
      case True
      have "?n mod 5 \<le> ?n" by simp
      with True l1 c(2) show ?thesis by (simp add: slots)
    next
      case False
      with i have "i \<noteq> ?n" by auto
      moreover have "valid (captured_fbs s1 ! i) \<longleftrightarrow> i < ?n" using v1 i by simp
      ultimately show ?thesis using False by (auto simp: slots less_Suc_eq)
    qed
  qed
  have frm: "\<forall>j<length (rs @ [r]). length (rs @ [r]) \<le> j + 5 \<longrightarrow>
               fb (captured_fbs st ! (j mod 5)) = fb_addr (fst (snd ((rs @ [r]) ! j))) \<and>
               timestamp (captured_fbs st ! (j mod 5)) = ktime_get_ns (fst ((rs @ [r]) ! j))"
  proof (intro allI impI)
    fix j
    assume j: "j < length (rs @ [r])" "length (rs @ [r]) \<le> j + 5"
    show "fb (captured_fbs st ! (j mod 5)) = fb_addr (fst (snd ((rs @ [r]) ! j))) \<and>
          timestamp (captured_fbs st ! (j mod 5)) = ktime_get_ns (fst ((rs @ [r]) ! j))"
    proof (cases "j = ?n")
      case True
      with l1 c(3,4) show ?thesis by (simp add: slots r)
    next
      case False
      with j have j': "j < ?n" "?n \<le> j + 4" by auto
      then have ne: "j mod 5 \<noteq> ?n mod 5" by (rule mod5_ne)
      have "fb (captured_fbs s1 ! (j mod 5)) = fb_addr (fst (snd (rs ! j))) \<and>
            timestamp (captured_fbs s1 ! (j mod 5)) = ktime_get_ns (fst (rs ! j))"
        using f1 j' by simp
      with ne j'(1) show ?thesis by (simp add: slots nth_append)
    qed
  qed
  from len cnt idx val frm show ?case by (intro conjI)
qed

text \<open>
  C6.  Starting from the initialised module, after any sequence of \<open>n\<close> pipeline runs
  that all return 0 the ring has exactly \<open>MAX_FB_CAPTURE = 5\<close> slots,
  \<open>capture_count = min n 5\<close>, the next slot to be used is \<open>n mod 5\<close>, exactly
  \<open>min n 5\<close> slots are valid, and every one of the last five runs \<open>j\<close> is found in slot
  \<open>j mod 5\<close>: slots are reused in the order 0, 1, 2, 3, 4, 0, ... and a sixth frame
  takes the place of the oldest one.
\<close>

theorem ring_after_runs:
  assumes "run_all rs init_state = Some st"
  shows "length (captured_fbs st) = MAX_FB_CAPTURE \<and>
         capture_count st = min (length rs) MAX_FB_CAPTURE \<and>
         current_index st = length rs mod MAX_FB_CAPTURE \<and>
         length (filter valid (captured_fbs st)) = min (length rs) MAX_FB_CAPTURE \<and>
         (\<forall>j<length rs. length rs \<le> j + MAX_FB_CAPTURE \<longrightarrow>
            valid (captured_fbs st ! (j mod MAX_FB_CAPTURE)) \<and>
            fb (captured_fbs st ! (j mod MAX_FB_CAPTURE)) = fb_addr (fst (snd (rs ! j))) \<and>
            timestamp (captured_fbs st ! (j mod MAX_FB_CAPTURE)) = ktime_get_ns (fst (rs ! j)))"
proof -
  note aux = ring_after_runs_aux [OF assms]
  have "{i. i < length (captured_fbs st) \<and> valid (captured_fbs st ! i)} =
        {..<min (length rs) 5}"
    using aux by auto
  then have "length (filter valid (captured_fbs st)) = min (length rs) 5"
    by (simp add: length_filter_conv_card)
  moreover have "valid (captured_fbs st ! (j mod 5))" if "j < length rs" for j
  proof -
    have "j mod 5 \<le> j" by simp
    with that aux show ?thesis by simp
  qed
  ultimately show ?thesis
    using aux by (simp add: MAX_FB_CAPTURE_def)
qed

lemma run_all_six_ring:
  "run_all [shmem_run 1 1, shmem_run 2 2, shmem_run 3 3, shmem_run 4 4, shmem_run 5 5,
            shmem_run 6 6] init_state = Some six_ring"
  by (simp add: shmem_run_def capture_shmem_run init_state_slots six_ring_def shmem_frame_def)

theorem ring_after_runs_witness:
  "run_all [shmem_run 1 1, shmem_run 2 2, shmem_run 3 3, shmem_run 4 4, shmem_run 5 5,
            shmem_run 6 6] init_state = Some six_ring \<and>
   length (captured_fbs six_ring) = 5 \<and> capture_count six_ring = 5 \<and>
   current_index six_ring = 1 \<and> length (filter valid (captured_fbs six_ring)) = 5 \<and>
   map fb (captured_fbs six_ring) = [6, 2, 3, 4, 5]"
  using ring_after_runs [OF run_all_six_ring]
  by (simp add: run_all_six_ring MAX_FB_CAPTURE_def) (simp add: six_ring_def shmem_frame_def)

section \<open>The size of the pixel buffer\<close>

lemma committed_buffer_size:
  assumes "capture_fb_pixels env (Some f) d st = Some (Inr u, st')"
  shows "buffer_size (captured_fbs st' ! current_index st) =
           min (unat (fb_height f * fb_width f * 4)) MAX_CAPTURE_SIZE"
  using capture_commit [OF assms] by (auto simp: expected_size_def)

lemma committed_buffer_size_exact:
  assumes "capture_fb_pixels env (Some f) d st = Some (Inr u, st')"
    and "unat (fb_height f) * unat (fb_width f) * 4 < 2 ^ 32"
  shows "buffer_size (captured_fbs st' ! current_index st) =
           min (unat (fb_height f) * unat (fb_width f) * 4) MAX_CAPTURE_SIZE"
proof -
  have "unat (fb_height f * fb_width f * 4) = unat (fb_height f) * unat (fb_width f) * 4"
    using assms(2) by (simp add: unat_word_ariths)
  with committed_buffer_size [OF assms(1)] show ?thesis by simp
qed

text \<open>
  C7 fails in the code.  For a framebuffer 1073741825 pixels wide and 1 high the frame
  needs \<open>2^32 + 4\<close> bytes, more than \<open>MAX_CAPTURE_SIZE\<close>; the 32-bit product
  \<open>height * width * 4\<close> wraps to 4 before it is compared with the limit, and the run
  commits a frame whose \<open>buffer_size\<close> is 4.
\<close>

theorem buffer_size_wraps:
  "MAX_CAPTURE_SIZE < unat (1 :: u32) * unat (1073741825 :: u32) * 4 \<and>
   (\<exists>st'. capture_fb_pixels (linux_env 0) (Some (test_fb 1 1073741825 1 4 0 (shmem_gem 7))) 0
             init_state = Some (Inr (), st') \<and>
      valid (captured_fbs st' ! 0) \<and> has_pixels (captured_fbs st' ! 0) \<and>
      pixel_buffer (captured_fbs st' ! 0) = Some [7, 7, 7, 7] \<and>
      buffer_size (captured_fbs st' ! 0) = 4)"
  by (simp add: run_defs Let_def init_state_slots shmem_copy.simps upt_0_4)

section \<open>Reading the captured bytes\<close>

lemma find_capture_Some:
  "find_capture fbs n = Some i \<Longrightarrow> i < n \<and> valid (fbs ! i) \<and> has_pixels (fbs ! i)"
  by (induction n) (auto split: if_splits)

lemma find_capture_None:
  "(\<forall>i<n. \<not> has_pixels (fbs ! i)) \<Longrightarrow> find_capture fbs n = None"
  by (induction n) auto

lemma reachable_full_ring: "reachable full_ring"
  using reachable_init run_all_full_ring by (rule run_all_reachable)

lemma reachable_six_ring: "reachable six_ring"
  using reachable_init run_all_six_ring by (rule run_all_reachable)

text \<open>
  C9.  In every state the module reaches, with the caller's buffer able to take the
  bytes: when no slot has pixel data the read fails with \<open>ENODATA\<close>; otherwise, for the
  frame the search finds, a position at or beyond \<open>buffer_size\<close> gives 0 bytes and no
  error, and a position \<open>offset\<close> below it gives exactly
  \<open>min count (buffer_size - offset)\<close> bytes, those of the frame from \<open>offset\<close> on,
  and moves the position by as much.
\<close>

theorem raw_read_boundaries:
  assumes "reachable st"
  shows "((\<forall>i<length (captured_fbs st). \<not> has_pixels (captured_fbs st ! i)) \<longrightarrow>
            drm_fb_raw_read st room count pos = Some (Inl ENODATA, [], pos)) \<and>
         (\<forall>i. find_capture (captured_fbs st) (capture_count st) = Some i \<longrightarrow>
            (\<exists>pixels.
               pixel_buffer (captured_fbs st ! i) = Some pixels \<and>
               length pixels = buffer_size (captured_fbs st ! i) \<and>
               (buffer_size (captured_fbs st ! i) \<le> nat (pos mod 2 ^ 64) \<longrightarrow>
                  drm_fb_raw_read st room count pos = Some (Inr 0, [], pos)) \<and>
               (nat (pos mod 2 ^ 64) < buffer_size (captured_fbs st ! i) \<and>
                min count (buffer_size (captured_fbs st ! i) - nat (pos mod 2 ^ 64)) \<le> room \<longrightarrow>
                  drm_fb_raw_read st room count pos =
                    Some (Inr (min count (buffer_size (captured_fbs st ! i) - nat (pos mod 2 ^ 64))),
                          take (min count (buffer_size (captured_fbs st ! i) - nat (pos mod 2 ^ 64)))
                            (drop (nat (pos mod 2 ^ 64)) pixels),
                          pos + int (min count
                                       (buffer_size (captured_fbs st ! i) - nat (pos mod 2 ^ 64)))) \<and>
                  length (take (min count (buffer_size (captured_fbs st ! i) - nat (pos mod 2 ^ 64)))
                            (drop (nat (pos mod 2 ^ 64)) pixels)) =
                    min count (buffer_size (captured_fbs st ! i) - nat (pos mod 2 ^ 64)))))"
proof -
  from assms have inv: "store_inv st" by (rule reachable_inv)
  then have cnt: "capture_count st \<le> length (captured_fbs st)"
    by (simp add: store_inv_def)
  have none: "drm_fb_raw_read st room count pos = Some (Inl ENODATA, [], pos)"
    if "\<forall>i<length (captured_fbs st). \<not> has_pixels (captured_fbs st ! i)"
  proof -
    from that cnt have "find_capture (captured_fbs st) (capture_count st) = None"
      by (intro find_capture_None) auto
    with cnt show ?thesis by (simp add: drm_fb_raw_read_def)
  qed
  have some: "\<exists>pixels.
               pixel_buffer (captured_fbs st ! i) = Some pixels \<and>
               length pixels = buffer_size (captured_fbs st ! i) \<and>
               (buffer_size (captured_fbs st ! i) \<le> nat (pos mod 2 ^ 64) \<longrightarrow>
                  drm_fb_raw_read st room count pos = Some (Inr 0, [], pos)) \<and>
               (nat (pos mod 2 ^ 64) < buffer_size (captured_fbs st ! i) \<and>
                min count (buffer_size (captured_fbs st ! i) - nat (pos mod 2 ^ 64)) \<le> room \<longrightarrow>
                  drm_fb_raw_read st room count pos =
                    Some (Inr (min count (buffer_size (captured_fbs st ! i) - nat (pos mod 2 ^ 64))),
                          take (min count (buffer_size (captured_fbs st ! i) - nat (pos mod 2 ^ 64)))
                            (drop (nat (pos mod 2 ^ 64)) pixels),
                          pos + int (min count
                                       (buffer_size (captured_fbs st ! i) - nat (pos mod 2 ^ 64)))) \<and>
                  length (take (min count (buffer_size (captured_fbs st ! i) - nat (pos mod 2 ^ 64)))
                            (drop (nat (pos mod 2 ^ 64)) pixels)) =
                    min count (buffer_size (captured_fbs st ! i) - nat (pos mod 2 ^ 64)))"
    if f: "find_capture (captured_fbs st) (capture_count st) = Some i" for i
  proof -
    from find_capture_Some [OF f] cnt have i: "i < length (captured_fbs st)"
      and hp: "has_pixels (captured_fbs st ! i)" by auto
    from inv i have "slot_ok (captured_fbs st ! i)"
      by (simp add: store_inv_def list_all_length)
    with hp obtain pixels where px: "pixel_buffer (captured_fbs st ! i) = Some pixels"
      "length pixels = buffer_size (captured_fbs st ! i)"
      by (auto simp: slot_ok_def split: option.splits)
    show ?thesis
      using px cnt f
      by (intro exI [of _ pixels])
         (auto simp: drm_fb_raw_read_def Let_def copy_to_user_def min_def)
  qed
  from none some show ?thesis by blast
qed

theorem raw_read_boundaries_witness:
  "drm_fb_raw_read init_state 10 10 0 = Some (Inl ENODATA, [], 0) \<and>
   find_capture (captured_fbs full_ring) (capture_count full_ring) = Some 4 \<and>
   buffer_size (captured_fbs full_ring ! 4) = 4 \<and>
   drm_fb_raw_read full_ring 10 1 4 = Some (Inr 0, [], 4) \<and>
   drm_fb_raw_read full_ring 10 10 3 = Some (Inr 1, [5], 4) \<and>
   drm_fb_raw_read full_ring 10 10 0 = Some (Inr 4, [5, 5, 5, 5], 4)"
proof -
  have f: "find_capture (captured_fbs full_ring) (capture_count full_ring) = Some 4"
    by (simp add: full_ring_def shmem_frame_def numeral_eq_Suc)
  have b: "buffer_size (captured_fbs full_ring ! 4) = 4"
    "pixel_buffer (captured_fbs full_ring ! 4) = Some [5, 5, 5, 5]"
    by (simp_all add: full_ring_def shmem_frame_def)
  have "drm_fb_raw_read init_state 10 10 0 = Some (Inl ENODATA, [], 0)"
    using raw_read_boundaries [OF reachable_init, of 10 10 0]
    by (simp add: init_state_def zero_capture_def MAX_FB_CAPTURE_def)
  moreover have "drm_fb_raw_read full_ring 10 1 4 = Some (Inr 0, [], 4)"
    using raw_read_boundaries [OF reachable_full_ring, of 10 1 4] f b by simp
  moreover have "drm_fb_raw_read full_ring 10 10 3 = Some (Inr 1, [5], 4)"
    using raw_read_boundaries [OF reachable_full_ring, of 10 10 3] f b
    by (simp add: numeral_eq_Suc)
  moreover have "drm_fb_raw_read full_ring 10 10 0 = Some (Inr 4, [5, 5, 5, 5], 4)"
    using raw_read_boundaries [OF reachable_full_ring, of 10 10 0] f b by simp
  ultimately show ?thesis using f b by simp
qed

text \<open>
  C4 fails in the code once the ring has wrapped.  After six runs the newest frame,
  committed at time 6, is in slot 0 and has pixel data; the search starts at slot
  \<open>capture_count - 1 = 4\<close> and the read returns the bytes of the frame committed at
  time 5.
\<close>

theorem raw_read_after_wrap:
  "run_all [shmem_run 1 1, shmem_run 2 2, shmem_run 3 3, shmem_run 4 4, shmem_run 5 5,
            shmem_run 6 6] init_state = Some six_ring \<and>
   valid (captured_fbs six_ring ! 0) \<and> has_pixels (captured_fbs six_ring ! 0) \<and>
   timestamp (captured_fbs six_ring ! 0) = 6 \<and>
   pixel_buffer (captured_fbs six_ring ! 0) = Some [6, 6, 6, 6] \<and>
   map timestamp (captured_fbs six_ring) = [6, 2, 3, 4, 5] \<and>
   find_capture (captured_fbs six_ring) (capture_count six_ring) = Some 4 \<and>
   drm_fb_raw_read six_ring 4 4 0 = Some (Inr 4, [5, 5, 5, 5], 4)"
  by (simp add: run_all_six_ring)
     (simp add: six_ring_def shmem_frame_def drm_fb_raw_read_def copy_to_user_def numeral_eq_Suc)

section \<open>Offsets of the converter as natural numbers\<close>

lemma pixel_index_less:
  assumes "x < W" and "y < H"
  shows "y * W + x < H * (W :: nat)"
proof -
  have "y * W + x < y * W + W" using assms(1) by simp
  also have "\<dots> = Suc y * W" by simp
  also have "\<dots> \<le> H * W" using assms(2) by (intro mult_le_mono1) simp
  finally show ?thesis .
qed

lemma pixel_index_inj:
  assumes "x < W" and "x' < W" and "y * W + x = y' * W + (x' :: nat)"
  shows "x = x' \<and> y = y'"
proof -
  have "(y * W + x) div W = y" "(y' * W + x') div W = y'"
    "(y * W + x) mod W = x" "(y' * W + x') mod W = x'"
    using assms(1,2) by simp_all
  with assms(3) show ?thesis by metis
qed

lemma unat_u32_less: "unat (a :: u32) < 2 ^ 32"
  using unsigned_less [of a, where ?'a = nat] by simp

lemma unat_of_nat_u32: "n < 2 ^ 32 \<Longrightarrow> unat (of_nat n :: u32) = n"
  by (simp add: unat_of_nat)

lemma unat_mult_u32: "unat a * unat b < 2 ^ 32 \<Longrightarrow> unat (a * b :: u32) = unat a * unat b"
  by (simp add: unat_word_ariths)

lemma unat_add_u32: "unat a + unat b < 2 ^ 32 \<Longrightarrow> unat (a + b :: u32) = unat a + unat b"
  by (simp add: unat_word_ariths)

lemma unat_dst_limit:
  "unat h * unat w * 4 < 2 ^ 32 \<Longrightarrow> unat (h * w * 4 :: u32) = unat h * unat w * 4"
proof -
  assume a: "unat h * unat w * 4 < 2 ^ 32"
  then have "unat h * unat w < 2 ^ 32" by simp
  then have "unat (h * w) = unat h * unat w" by (rule unat_mult_u32)
  with a show ?thesis by (simp add: unat_mult_u32)
qed

lemma unat_dst_offset:
  assumes "x < unat w" and "y < unat (h :: u32)" and "unat h * unat w * 4 < 2 ^ 32"
  shows "unat (dst_offset_of w (of_nat x) (of_nat y)) = (y * unat w + x) * 4"
proof -
  have q: "y * unat w + x < unat h * unat w" using assms(1,2) by (rule pixel_index_less)
  with assms(3) have b: "(y * unat w + x) * 4 < 2 ^ 32" by simp
  have xs: "x < 2 ^ 32" "y < 2 ^ 32" using b assms(1,2) unat_u32_less [of w] unat_u32_less [of h]
    by simp_all
  have ux: "unat (of_nat x :: u32) = x" and uy: "unat (of_nat y :: u32) = y"
    using xs by (simp_all add: unat_of_nat_u32)
  have yw: "unat (of_nat y * w :: u32) = y * unat w"
    using b by (subst unat_mult_u32) (simp_all add: uy)
  have yw4: "unat (of_nat y * w * 4 :: u32) = y * unat w * 4"
    using b by (subst unat_mult_u32) (simp_all add: yw)
  have x4: "unat (of_nat x * 4 :: u32) = x * 4"
    using b by (subst unat_mult_u32) (simp_all add: ux)
  have "unat (of_nat y * w * 4 + of_nat x * 4 :: u32) =
          unat (of_nat y * w * 4 :: u32) + unat (of_nat x * 4 :: u32)"
    using b by (intro unat_add_u32) (simp add: yw4 x4 add_mult_distrib)
  then show ?thesis
    by (simp add: dst_offset_of_def yw4 x4 add_mult_distrib)
qed

lemma unat_plus_byte:
  assumes "unat (a :: u32) + k < 2 ^ 32" and "k < 4"
  shows "unat (a + of_nat k) = unat a + k"
proof -
  have "unat (of_nat k :: u32) = k" using assms(2) by (simp add: unat_of_nat_u32)
  with assms(1) show ?thesis by (simp add: unat_add_u32)
qed

text \<open>Both tile geometries are powers of two, so the masks are remainders.\<close>

lemma unat_and_511: "unat ((a :: u32) AND 511) = unat a mod 512"
proof -
  have "(511 :: u32) = mask 9" by (simp add: mask_eq_exp_minus_1)
  then have "a AND 511 = take_bit 9 a" by (simp add: take_bit_eq_mask)
  then show ?thesis by (simp add: take_bit_eq_mod unat_mod_distrib)
qed

lemma unat_and_127: "unat ((a :: u32) AND 127) = unat a mod 128"
proof -
  have "(127 :: u32) = mask 7" by (simp add: mask_eq_exp_minus_1)
  then have "a AND 127 = take_bit 7 a" by (simp add: take_bit_eq_mask)
  then show ?thesis by (simp add: take_bit_eq_mod unat_mod_distrib)
qed

lemma unat_and_31: "unat ((a :: u32) AND 31) = unat a mod 32"
proof -
  have "(31 :: u32) = mask 5" by (simp add: mask_eq_exp_minus_1)
  then have "a AND 31 = take_bit 5 a" by (simp add: take_bit_eq_mask)
  then show ?thesis by (simp add: take_bit_eq_mod unat_mod_distrib)
qed

lemma unat_and_7: "unat ((a :: u32) AND 7) = unat a mod 8"
proof -
  have "(7 :: u32) = mask 3" by (simp add: mask_eq_exp_minus_1)
  then have "a AND 7 = take_bit 3 a" by (simp add: take_bit_eq_mask)
  then show ?thesis by (simp add: take_bit_eq_mod unat_mod_distrib)
qed

lemma unat_src_offset_gen:
  fixes tw th p :: u32
  assumes mx: "\<And>a. unat (a AND (tw - 1)) = unat a mod unat tw"
    and my: "\<And>a. unat (a AND (th - 1)) = unat a mod unat th"
    and ts: "0 < unat tw * unat th" "unat tw * unat th < 2 ^ 32"
    and x4: "x * 4 < 2 ^ 32" and y: "y < 2 ^ 32"
    and b: "spec_src_offset (unat tw) (unat th) (unat p) x y < 2 ^ 32"
  shows "unat (src_offset_of tw th p (of_nat x) (of_nat y)) =
           spec_src_offset (unat tw) (unat th) (unat p) x y"
proof -
  define TW TH P where "TW = unat tw" and "TH = unat th" and "P = unat p"
  define ti where "ti = (y div TH) * (P div TW) + x * 4 div TW"
  have soff: "spec_src_offset TW TH P x y = ti * (TW * TH) + (y mod TH) * TW + x * 4 mod TW"
    by (simp add: spec_src_offset_def Let_def ti_def mult.assoc)
  with b have B: "ti * (TW * TH) + (y mod TH) * TW + x * 4 mod TW < 2 ^ 32"
    by (simp add: TW_def TH_def P_def)
  have "1 \<le> TW * TH" using ts(1) by (simp add: TW_def TH_def)
  then have "ti * 1 \<le> ti * (TW * TH)" by (rule mult_le_mono2)
  then have "ti \<le> ti * (TW * TH) + (y mod TH) * TW + x * 4 mod TW" by linarith
  with B have tib: "ti < 2 ^ 32" by linarith
  have ux: "unat (of_nat x :: u32) = x" using x4 by (simp add: unat_of_nat_u32)
  have uy: "unat (of_nat y :: u32) = y" using y by (simp add: unat_of_nat_u32)
  have ubx: "unat (of_nat x * 4 :: u32) = x * 4"
    using x4 by (subst unat_mult_u32) (simp_all add: ux)
  have utx: "unat ((of_nat x * 4 :: u32) div tw) = x * 4 div TW"
    by (simp add: unat_div ubx TW_def)
  have uty: "unat ((of_nat y :: u32) div th) = y div TH"
    by (simp add: unat_div uy TH_def)
  have utpr: "unat (p div tw) = P div TW"
    by (simp add: unat_div TW_def P_def)
  have utt: "unat ((of_nat y :: u32) div th * (p div tw)) = (y div TH) * (P div TW)"
    using tib by (subst unat_mult_u32) (simp_all add: uty utpr ti_def)
  have uti: "unat ((of_nat y :: u32) div th * (p div tw) + (of_nat x * 4) div tw) = ti"
    using tib by (subst unat_add_u32) (simp_all add: utt utx ti_def)
  have utsz: "unat (tw * th) = TW * TH"
    using ts(2) by (subst unat_mult_u32) (simp_all add: TW_def TH_def)
  have uA: "unat (((of_nat y :: u32) div th * (p div tw) + (of_nat x * 4) div tw) * (tw * th)) =
              ti * (TW * TH)"
    using B by (subst unat_mult_u32) (simp_all add: uti utsz)
  have uiy: "unat ((of_nat y :: u32) AND (th - 1)) = y mod TH"
    by (simp add: my uy TH_def)
  have uix: "unat ((of_nat x * 4 :: u32) AND (tw - 1)) = x * 4 mod TW"
    by (simp add: mx ubx TW_def)
  have uB: "unat (((of_nat y :: u32) AND (th - 1)) * tw) = (y mod TH) * TW"
    using B by (subst unat_mult_u32) (simp_all add: uiy TW_def)
  have uAB: "unat (((of_nat y :: u32) div th * (p div tw) + (of_nat x * 4) div tw) * (tw * th) +
                   ((of_nat y :: u32) AND (th - 1)) * tw) = ti * (TW * TH) + (y mod TH) * TW"
    using B by (subst unat_add_u32) (simp_all add: uA uB)
  have "unat (((of_nat y :: u32) div th * (p div tw) + (of_nat x * 4) div tw) * (tw * th) +
              ((of_nat y :: u32) AND (th - 1)) * tw + ((of_nat x * 4 :: u32) AND (tw - 1))) =
          ti * (TW * TH) + (y mod TH) * TW + x * 4 mod TW"
    using B by (subst unat_add_u32) (simp_all add: uAB uix)
  then show ?thesis
    using soff
    by (simp add: src_offset_of_def Let_def tile_offset_x_def tile_offset_y_def
        TW_def TH_def P_def)
qed

lemma unat_src_offset:
  assumes "tile_dims tiling = Some (tw, th)"
    and "x * 4 < 2 ^ 32" and "y < 2 ^ 32"
    and "spec_src_offset (unat tw) (unat th) (unat p) x y < 2 ^ 32"
  shows "unat (src_offset_of tw th p (of_nat x) (of_nat y)) =
           spec_src_offset (unat tw) (unat th) (unat p) x y"
proof -
  from assms(1) consider "tw = 512" "th = 8" | "tw = 128" "th = 32"
    by (auto simp: tile_dims_def INTEL_TILE_X_WIDTH_def INTEL_TILE_X_HEIGHT_def
        INTEL_TILE_Y_WIDTH_def INTEL_TILE_Y_HEIGHT_def split: intel_tiling.splits)
  then show ?thesis
  proof cases
    case 1
    show ?thesis
      using assms(2-4) unfolding 1
      by (intro unat_src_offset_gen) (simp_all add: unat_and_511 unat_and_7)
  next
    case 2
    show ?thesis
      using assms(2-4) unfolding 2
      by (intro unat_src_offset_gen) (simp_all add: unat_and_127 unat_and_31)
  qed
qed

section \<open>One byte, one pixel, one row\<close>

lemma copy_byte_step:
  assumes "unat sl \<le> length src" and "unat dl \<le> length dst"
  shows "\<exists>dst'. copy_byte src sl dl so d k dst = Some dst' \<and> length dst' = length dst \<and>
           (\<forall>j. j \<noteq> unat (d + of_nat k) \<longrightarrow> dst' ! j = dst ! j) \<and>
           (so + of_nat k < sl \<and> d + of_nat k < dl \<longrightarrow>
              unat (so + of_nat k) < unat sl \<and> unat (d + of_nat k) < unat dl \<and>
              dst' ! unat (d + of_nat k) = src ! unat (so + of_nat k)) \<and>
           (\<not> (so + of_nat k < sl \<and> d + of_nat k < dl) \<longrightarrow> dst' = dst)"
proof (cases "so + of_nat k < sl \<and> d + of_nat k < dl")
  case False
  then show ?thesis by (auto simp: copy_byte_def)
next
  case True
  then have "unat (so + of_nat k) < unat sl" "unat (d + of_nat k) < unat dl"
    by (simp_all add: word_less_nat_alt)
  with assms True show ?thesis by (simp add: copy_byte_def)
qed

text \<open>
  Whatever the sizes, a conversion over buffers that reach the two 32-bit limits never
  leaves them, and a byte of the destination either keeps its value or holds a byte read
  from the source below its limit.
\<close>

lemma copy_byte_only_copies:
  assumes "unat sl \<le> length src" and "unat dl \<le> length dst0"
    and "length dst = length dst0"
    and "\<forall>j<length dst0. dst ! j \<noteq> dst0 ! j \<longrightarrow> j < unat dl \<and> (\<exists>i<unat sl. dst ! j = src ! i)"
  shows "\<exists>dst'. copy_byte src sl dl so d k dst = Some dst' \<and> length dst' = length dst0 \<and>
           (\<forall>j<length dst0. dst' ! j \<noteq> dst0 ! j \<longrightarrow>
              j < unat dl \<and> (\<exists>i<unat sl. dst' ! j = src ! i))"
proof -
  from assms(2,3) have "unat dl \<le> length dst" by simp
  from copy_byte_step [OF assms(1) this, of so d k] obtain dst' where
    s: "copy_byte src sl dl so d k dst = Some dst'" "length dst' = length dst"
      "\<forall>j. j \<noteq> unat (d + of_nat k) \<longrightarrow> dst' ! j = dst ! j"
      "so + of_nat k < sl \<and> d + of_nat k < dl \<longrightarrow>
         unat (so + of_nat k) < unat sl \<and> unat (d + of_nat k) < unat dl \<and>
         dst' ! unat (d + of_nat k) = src ! unat (so + of_nat k)"
      "\<not> (so + of_nat k < sl \<and> d + of_nat k < dl) \<longrightarrow> dst' = dst"
    by blast
  have "j < unat dl \<and> (\<exists>i<unat sl. dst' ! j = src ! i)"
    if j: "j < length dst0" "dst' ! j \<noteq> dst0 ! j" for j
  proof (cases "j = unat (d + of_nat k) \<and> so + of_nat k < sl \<and> d + of_nat k < dl")
    case True
    with s(4) show ?thesis by auto
  next
    case False
    then have "dst' ! j = dst ! j" using s(3,5) by auto
    with j assms(4) show ?thesis by auto
  qed
  with s(1,2) assms(3) show ?thesis by auto
qed

lemma convert_only_copies:
  assumes td: "tile_dims tiling = Some (tw, th)"
    and sl: "unat (h * p) \<le> length src" and dl: "unat (h * w * 4) \<le> length dst"
  shows "\<exists>dst'. convert_tiled_to_linear (Some src) (Some dst) w h p tiling = Some (Inr dst') \<and>
           length dst' = length dst \<and>
           (\<forall>j<length dst. dst' ! j \<noteq> dst ! j \<longrightarrow>
              j < unat (h * w * 4) \<and> (\<exists>i<unat (h * p). dst' ! j = src ! i))"
proof -
  let ?P = "\<lambda>d. length d = length dst \<and>
              (\<forall>j<length dst. d ! j \<noteq> dst ! j \<longrightarrow>
                 j < unat (h * w * 4) \<and> (\<exists>i<unat (h * p). d ! j = src ! i))"
  have pixel: "\<exists>d'. copy_pixel src tw th w h p y x d = Some d' \<and> ?P d'" if "?P d" for x y d
    unfolding copy_pixel_def
    by (rule for_upto_indexed [where I = "\<lambda>_. ?P"])
       (use that in \<open>auto intro!: copy_byte_only_copies [OF sl dl]\<close>)
  have row: "\<exists>d'. for_upto (unat w) (copy_pixel src tw th w h p y) d = Some d' \<and> ?P d'"
    if "?P d" for y d
    by (rule for_upto_indexed [where I = "\<lambda>_. ?P"]) (use that pixel in auto)
  have "\<exists>d'. for_upto (unat h) (\<lambda>y. for_upto (unat w) (copy_pixel src tw th w h p y)) dst =
               Some d' \<and> ?P d'"
    by (rule for_upto_indexed [where I = "\<lambda>_. ?P"]) (use row in auto)
  then show ?thesis
    by (auto simp: convert_tiled_to_linear_def td)
qed

text \<open>The destination offset and the limit are multiples of four.\<close>

lemma unat_times_4_dvd: "4 dvd unat (a * 4 :: u32)"
proof -
  have "unat (a * 4) = (unat a * 4) mod 2 ^ 32" by (simp add: unat_word_ariths)
  moreover have "(4::nat) dvd unat a * 4" "(4::nat) dvd 2 ^ 32" by simp_all
  ultimately show ?thesis by (simp add: dvd_mod)
qed

lemma dst_offset_dvd: "4 dvd unat (dst_offset_of w x y)"
proof -
  have e: "dst_offset_of w x y = (y * w + x) * 4"
    by (simp add: dst_offset_of_def distrib_right)
  show ?thesis unfolding e by (rule unat_times_4_dvd)
qed

lemma dst_guard_whole_pixel:
  assumes "dst_offset_of w x y + of_nat k < h * w * 4" and "k < 4"
  shows "unat (dst_offset_of w x y + of_nat k) = unat (dst_offset_of w x y) + k \<and>
         unat (dst_offset_of w x y) + 3 < unat (h * w * 4)"
proof -
  let ?d = "unat (dst_offset_of w x y)"
  obtain a where a: "?d = 4 * a" using dst_offset_dvd [of w x y] by (auto elim: dvdE)
  obtain b where b: "unat (h * w * 4) = 4 * b" using unat_times_4_dvd [of "h * w"]
    by (auto elim: dvdE)
  have "?d < 2 ^ 32" by (rule unat_u32_less)
  with a have "?d + 4 \<le> 2 ^ 32" by simp
  with assms(2) have e: "unat (dst_offset_of w x y + of_nat k) = ?d + k"
    by (intro unat_plus_byte) simp_all
  from assms(1) have "?d + k < unat (h * w * 4)" by (simp add: word_less_nat_alt e)
  with a b have "?d + 3 < unat (h * w * 4)" by arith
  with e show ?thesis by simp
qed

section \<open>The converted image when its size fits 32 bits\<close>

lemma copy_pixel_exact:
  fixes w h p :: u32
  assumes nw: "unat h * unat w * 4 < 2 ^ 32"
    and sl: "unat (h * p) \<le> length src" and dl: "unat h * unat w * 4 \<le> length d0"
    and x: "x < unat w" and y: "y < unat h"
  shows "\<exists>d'. copy_pixel src tw th w h p y x d0 = Some d' \<and> length d' = length d0 \<and>
           (\<forall>j. j div 4 \<noteq> y * unat w + x \<longrightarrow> d' ! j = d0 ! j) \<and>
           (\<forall>k<4. d' ! ((y * unat w + x) * 4 + k) =
              (if src_offset_of tw th p (of_nat x) (of_nat y) + of_nat k < h * p
               then src ! unat (src_offset_of tw th p (of_nat x) (of_nat y) + of_nat k)
               else d0 ! ((y * unat w + x) * 4 + k)))"
proof -
  let ?q = "y * unat w + x"
  let ?S = "src_offset_of tw th p (of_nat x) (of_nat y)"
  let ?D = "dst_offset_of w (of_nat x) (of_nat y)"
  have uD: "unat ?D = ?q * 4" using x y nw by (rule unat_dst_offset)
  have uDL: "unat (h * w * 4) = unat h * unat w * 4" using nw by (rule unat_dst_limit)
  have "?q < unat h * unat w" using x y by (rule pixel_index_less)
  then have qb: "?q * 4 + 4 \<le> unat h * unat w * 4" by simp
  have uDk: "unat (?D + of_nat k) = ?q * 4 + k" if "k < 4" for k
    using that qb nw by (subst unat_plus_byte) (simp_all add: uD)
  have gD: "?D + of_nat k < h * w * 4" if "k < 4" for k
    using that qb by (simp add: word_less_nat_alt uDk uDL)
  let ?I = "\<lambda>n d. length d = length d0 \<and> (\<forall>j. j div 4 \<noteq> ?q \<longrightarrow> d ! j = d0 ! j) \<and>
              (\<forall>k<4. d ! (?q * 4 + k) =
                 (if k < n \<and> ?S + of_nat k < h * p then src ! unat (?S + of_nat k)
                  else d0 ! (?q * 4 + k)))"
  have "\<exists>d'. for_upto 4 (copy_byte src (h * p) (h * w * 4) ?S ?D) d0 = Some d' \<and> ?I 4 d'"
  proof (rule for_upto_indexed [where I = ?I])
    show "?I 0 d0" by simp
  next
    fix n d
    assume n: "n < 4" and I: "?I n d"
    from I dl uDL have dl': "unat (h * w * 4) \<le> length d" by simp
    from copy_byte_step [OF sl dl', of ?S ?D n] obtain d' where
      s0: "copy_byte src (h * p) (h * w * 4) ?S ?D n d = Some d'" "length d' = length d"
        "\<forall>j. j \<noteq> unat (?D + of_nat n) \<longrightarrow> d' ! j = d ! j"
        "?S + of_nat n < h * p \<and> ?D + of_nat n < h * w * 4 \<longrightarrow>
           unat (?S + of_nat n) < unat (h * p) \<and> unat (?D + of_nat n) < unat (h * w * 4) \<and>
           d' ! unat (?D + of_nat n) = src ! unat (?S + of_nat n)"
        "\<not> (?S + of_nat n < h * p \<and> ?D + of_nat n < h * w * 4) \<longrightarrow> d' = d"
      by blast
    note s = s0(1,2)
    have s3: "\<forall>j. j \<noteq> ?q * 4 + n \<longrightarrow> d' ! j = d ! j"
      using s0(3) by (simp only: uDk [OF n])
    have s4: "?S + of_nat n < h * p \<longrightarrow> d' ! (?q * 4 + n) = src ! unat (?S + of_nat n)"
      using s0(4) gD [OF n] by (simp only: uDk [OF n]) blast
    have s5: "\<not> ?S + of_nat n < h * p \<longrightarrow> d' = d"
      using s0(5) gD [OF n] by blast
    from I have I1: "length d = length d0"
      and I2: "\<forall>j. j div 4 \<noteq> ?q \<longrightarrow> d ! j = d0 ! j"
      and I3: "\<forall>k<4. d ! (?q * 4 + k) =
                 (if k < n \<and> ?S + of_nat k < h * p then src ! unat (?S + of_nat k)
                  else d0 ! (?q * 4 + k))"
      by blast+
    have a: "\<forall>j. j div 4 \<noteq> ?q \<longrightarrow> d' ! j = d0 ! j"
    proof (intro allI impI)
      fix j assume j: "j div 4 \<noteq> ?q"
      have "(?q * 4 + n) div 4 = ?q" using n by simp
      with j have "j \<noteq> ?q * 4 + n" by metis
      with s3 have "d' ! j = d ! j" by blast
      with I2 j show "d' ! j = d0 ! j" by simp
    qed
    have b: "\<forall>k<4. d' ! (?q * 4 + k) =
               (if k < Suc n \<and> ?S + of_nat k < h * p then src ! unat (?S + of_nat k)
                else d0 ! (?q * 4 + k))"
    proof (intro allI impI)
      fix k :: nat assume k: "k < 4"
      from I3 k have Ik: "d ! (?q * 4 + k) =
                 (if k < n \<and> ?S + of_nat k < h * p then src ! unat (?S + of_nat k)
                  else d0 ! (?q * 4 + k))" by blast
      show "d' ! (?q * 4 + k) =
               (if k < Suc n \<and> ?S + of_nat k < h * p then src ! unat (?S + of_nat k)
                else d0 ! (?q * 4 + k))"
      proof (cases "k = n")
        case True
        show ?thesis
        proof (cases "?S + of_nat n < h * p")
          case True
          with s4 \<open>k = n\<close> show ?thesis by simp
        next
          case False
          with s5 have "d' = d" by simp
          with Ik False \<open>k = n\<close> show ?thesis by simp
        qed
      next
        case False
        then have "?q * 4 + k \<noteq> ?q * 4 + n" by simp
        with s3 have "d' ! (?q * 4 + k) = d ! (?q * 4 + k)" by blast
        with Ik False show ?thesis by (simp add: less_Suc_eq)
      qed
    qed
    have "?I (Suc n) d'" using s(2) I1 a b by (intro conjI) simp_all
    with s(1) show "\<exists>d'. copy_byte src (h * p) (h * w * 4) ?S ?D n d = Some d' \<and> ?I (Suc n) d'"
      by blast
  qed
  then show ?thesis unfolding copy_pixel_def by simp
qed

lemma copy_row_exact:
  fixes w h p :: u32
  assumes nw: "unat h * unat w * 4 < 2 ^ 32"
    and sl: "unat (h * p) \<le> length src" and dl: "unat h * unat w * 4 \<le> length d0"
    and y: "y < unat h"
  shows "\<exists>d'. for_upto (unat w) (copy_pixel src tw th w h p y) d0 = Some d' \<and>
           length d' = length d0 \<and>
           (\<forall>j. j div 4 div unat w \<noteq> y \<longrightarrow> d' ! j = d0 ! j) \<and>
           (\<forall>x<unat w. \<forall>k<4. d' ! ((y * unat w + x) * 4 + k) =
              (if src_offset_of tw th p (of_nat x) (of_nat y) + of_nat k < h * p
               then src ! unat (src_offset_of tw th p (of_nat x) (of_nat y) + of_nat k)
               else d0 ! ((y * unat w + x) * 4 + k)))"
proof -
  let ?W = "unat w"
  let ?S = "\<lambda>x. src_offset_of tw th p (of_nat x) (of_nat y)"
  let ?J = "\<lambda>X d. length d = length d0 \<and> (\<forall>j. j div 4 div ?W \<noteq> y \<longrightarrow> d ! j = d0 ! j) \<and>
              (\<forall>x<?W. \<forall>k<4. d ! ((y * ?W + x) * 4 + k) =
                 (if x < X \<and> ?S x + of_nat k < h * p then src ! unat (?S x + of_nat k)
                  else d0 ! ((y * ?W + x) * 4 + k)))"
  have "\<exists>d'. for_upto ?W (copy_pixel src tw th w h p y) d0 = Some d' \<and> ?J ?W d'"
  proof (rule for_upto_indexed [where I = ?J])
    show "?J 0 d0" by simp
  next
    fix X d
    assume X: "X < ?W" and J: "?J X d"
    from J have J1: "length d = length d0"
      and J2: "\<forall>j. j div 4 div ?W \<noteq> y \<longrightarrow> d ! j = d0 ! j"
      and J3: "\<forall>x<?W. \<forall>k<4. d ! ((y * ?W + x) * 4 + k) =
                 (if x < X \<and> ?S x + of_nat k < h * p then src ! unat (?S x + of_nat k)
                  else d0 ! ((y * ?W + x) * 4 + k))"
      by blast+
    from dl J1 have dl': "unat h * unat w * 4 \<le> length d" by simp
    from copy_pixel_exact [OF nw sl dl' X y, of tw th] obtain d' where
      s1: "copy_pixel src tw th w h p y X d = Some d'" and s2: "length d' = length d"
      and s3: "\<forall>j. j div 4 \<noteq> y * ?W + X \<longrightarrow> d' ! j = d ! j"
      and s4: "\<forall>k<4. d' ! ((y * ?W + X) * 4 + k) =
                 (if ?S X + of_nat k < h * p then src ! unat (?S X + of_nat k)
                  else d ! ((y * ?W + X) * 4 + k))"
      by blast
    have a: "\<forall>j. j div 4 div ?W \<noteq> y \<longrightarrow> d' ! j = d0 ! j"
    proof (intro allI impI)
      fix j assume j: "j div 4 div ?W \<noteq> y"
      have "(y * ?W + X) div ?W = y" using X by simp
      with j have "j div 4 \<noteq> y * ?W + X" by metis
      with s3 have "d' ! j = d ! j" by blast
      with J2 j show "d' ! j = d0 ! j" by simp
    qed
    have b: "\<forall>x<?W. \<forall>k<4. d' ! ((y * ?W + x) * 4 + k) =
               (if x < Suc X \<and> ?S x + of_nat k < h * p then src ! unat (?S x + of_nat k)
                else d0 ! ((y * ?W + x) * 4 + k))"
    proof (intro allI impI)
      fix x k :: nat assume x: "x < ?W" and k: "k < 4"
      from J3 x k have Jx: "d ! ((y * ?W + x) * 4 + k) =
                 (if x < X \<and> ?S x + of_nat k < h * p then src ! unat (?S x + of_nat k)
                  else d0 ! ((y * ?W + x) * 4 + k))" by blast
      show "d' ! ((y * ?W + x) * 4 + k) =
               (if x < Suc X \<and> ?S x + of_nat k < h * p then src ! unat (?S x + of_nat k)
                else d0 ! ((y * ?W + x) * 4 + k))"
      proof (cases "x = X")
        case True
        from s4 k have "d' ! ((y * ?W + X) * 4 + k) =
                 (if ?S X + of_nat k < h * p then src ! unat (?S X + of_nat k)
                  else d ! ((y * ?W + X) * 4 + k))" by blast
        with Jx True show ?thesis by simp
      next
        case False
        have "((y * ?W + x) * 4 + k) div 4 = y * ?W + x" using k by simp
        moreover from False have "y * ?W + x \<noteq> y * ?W + X" by simp
        ultimately have "((y * ?W + x) * 4 + k) div 4 \<noteq> y * ?W + X" by simp
        with s3 have "d' ! ((y * ?W + x) * 4 + k) = d ! ((y * ?W + x) * 4 + k)" by blast
        with Jx False show ?thesis by (simp add: less_Suc_eq)
      qed
    qed
    have "?J (Suc X) d'" using s2 J1 a b by (intro conjI) simp_all
    with s1 show "\<exists>d'. copy_pixel src tw th w h p y X d = Some d' \<and> ?J (Suc X) d'" by blast
  qed
  then show ?thesis by simp
qed

lemma convert_rows_exact:
  fixes w h p :: u32
  assumes nw: "unat h * unat w * 4 < 2 ^ 32"
    and sl: "unat (h * p) \<le> length src" and dl: "unat h * unat w * 4 \<le> length d0"
  shows "\<exists>d'. for_upto (unat h) (\<lambda>y. for_upto (unat w) (copy_pixel src tw th w h p y)) d0 =
               Some d' \<and>
           length d' = length d0 \<and>
           (\<forall>y<unat h. \<forall>x<unat w. \<forall>k<4. d' ! ((y * unat w + x) * 4 + k) =
              (if src_offset_of tw th p (of_nat x) (of_nat y) + of_nat k < h * p
               then src ! unat (src_offset_of tw th p (of_nat x) (of_nat y) + of_nat k)
               else d0 ! ((y * unat w + x) * 4 + k)))"
proof -
  let ?W = "unat w" and ?H = "unat h"
  let ?S = "\<lambda>x y. src_offset_of tw th p (of_nat x) (of_nat y)"
  let ?K = "\<lambda>Y d. length d = length d0 \<and>
              (\<forall>y<?H. \<forall>x<?W. \<forall>k<4. d ! ((y * ?W + x) * 4 + k) =
                 (if y < Y \<and> ?S x y + of_nat k < h * p then src ! unat (?S x y + of_nat k)
                  else d0 ! ((y * ?W + x) * 4 + k)))"
  have "\<exists>d'. for_upto ?H (\<lambda>y. for_upto ?W (copy_pixel src tw th w h p y)) d0 = Some d' \<and>
             ?K ?H d'"
  proof (rule for_upto_indexed [where I = ?K])
    show "?K 0 d0" by simp
  next
    fix Y d
    assume Y: "Y < ?H" and K: "?K Y d"
    from K have K1: "length d = length d0"
      and K3: "\<forall>y<?H. \<forall>x<?W. \<forall>k<4. d ! ((y * ?W + x) * 4 + k) =
                 (if y < Y \<and> ?S x y + of_nat k < h * p then src ! unat (?S x y + of_nat k)
                  else d0 ! ((y * ?W + x) * 4 + k))"
      by blast+
    from dl K1 have dl': "unat h * unat w * 4 \<le> length d" by simp
    from copy_row_exact [OF nw sl dl' Y, of tw th] obtain d' where
      s1: "for_upto ?W (copy_pixel src tw th w h p Y) d = Some d'" and s2: "length d' = length d"
      and s3: "\<forall>j. j div 4 div ?W \<noteq> Y \<longrightarrow> d' ! j = d ! j"
      and s4: "\<forall>x<?W. \<forall>k<4. d' ! ((Y * ?W + x) * 4 + k) =
                 (if ?S x Y + of_nat k < h * p then src ! unat (?S x Y + of_nat k)
                  else d ! ((Y * ?W + x) * 4 + k))"
      by blast
    have b: "\<forall>y<?H. \<forall>x<?W. \<forall>k<4. d' ! ((y * ?W + x) * 4 + k) =
               (if y < Suc Y \<and> ?S x y + of_nat k < h * p then src ! unat (?S x y + of_nat k)
                else d0 ! ((y * ?W + x) * 4 + k))"
    proof (intro allI impI)
      fix y x k :: nat assume y: "y < ?H" and x: "x < ?W" and k: "k < 4"
      from K3 y x k have Ky: "d ! ((y * ?W + x) * 4 + k) =
                 (if y < Y \<and> ?S x y + of_nat k < h * p then src ! unat (?S x y + of_nat k)
                  else d0 ! ((y * ?W + x) * 4 + k))" by blast
      show "d' ! ((y * ?W + x) * 4 + k) =
               (if y < Suc Y \<and> ?S x y + of_nat k < h * p then src ! unat (?S x y + of_nat k)
                else d0 ! ((y * ?W + x) * 4 + k))"
      proof (cases "y = Y")
        case True
        from s4 x k have "d' ! ((Y * ?W + x) * 4 + k) =
                 (if ?S x Y + of_nat k < h * p then src ! unat (?S x Y + of_nat k)
                  else d ! ((Y * ?W + x) * 4 + k))" by blast
        with Ky True show ?thesis by simp
      next
        case False
        have "((y * ?W + x) * 4 + k) div 4 = y * ?W + x" using k by simp
        moreover have "(y * ?W + x) div ?W = y" using x by simp
        ultimately have "((y * ?W + x) * 4 + k) div 4 div ?W \<noteq> Y" using False by simp
        with s3 have "d' ! ((y * ?W + x) * 4 + k) = d ! ((y * ?W + x) * 4 + k)" by blast
        with Ky False show ?thesis by (simp add: less_Suc_eq)
      qed
    qed
    have "?K (Suc Y) d'" using s2 K1 b by (intro conjI) simp_all
    with s1 show "\<exists>d'. for_upto ?W (copy_pixel src tw th w h p Y) d = Some d' \<and> ?K (Suc Y) d'"
      by blast
  qed
  then show ?thesis by simp
qed

lemma convert_exact:
  fixes w h p :: u32
  assumes td: "tile_dims tiling = Some (tw, th)"
    and nw: "unat h * unat w * 4 < 2 ^ 32"
    and sl: "unat (h * p) \<le> length src" and dl: "unat h * unat w * 4 \<le> length dst"
  shows "\<exists>dst'. convert_tiled_to_linear (Some src) (Some dst) w h p tiling = Some (Inr dst') \<and>
           length dst' = length dst \<and>
           (\<forall>y<unat h. \<forall>x<unat w. \<forall>k<4. dst' ! ((y * unat w + x) * 4 + k) =
              (if src_offset_of tw th p (of_nat x) (of_nat y) + of_nat k < h * p
               then src ! unat (src_offset_of tw th p (of_nat x) (of_nat y) + of_nat k)
               else dst ! ((y * unat w + x) * 4 + k)))"
  using convert_rows_exact [OF nw sl dl, of tw th]
  by (auto simp: convert_tiled_to_linear_def td)

lemma for_upto_skip: "(\<And>i s. body i s = Some s) \<Longrightarrow> for_upto n body s = Some s"
  by (induction n) simp_all

lemma convert_zero_limit:
  assumes "tile_dims tiling = Some (tw, th)" and "h * w * 4 = 0"
  shows "convert_tiled_to_linear (Some src) (Some dst) w h p tiling = Some (Inr dst)"
proof -
  have byte: "copy_byte src (h * p) (h * w * 4) so d k b = Some b" for so d k b
    by (simp add: copy_byte_def assms(2))
  have pixel: "copy_pixel src tw th w h p y x b = Some b" for y x b
    unfolding copy_pixel_def by (rule for_upto_skip) (rule byte)
  have row: "for_upto (unat w) (copy_pixel src tw th w h p y) b = Some b" for y b
    by (rule for_upto_skip) (rule pixel)
  have "for_upto (unat h) (\<lambda>y. for_upto (unat w) (copy_pixel src tw th w h p y)) dst = Some dst"
    by (rule for_upto_skip) (rule row)
  then show ?thesis by (simp add: convert_tiled_to_linear_def assms(1))
qed

text \<open>
  C1, as amended.  For a conversion with tiling X (tiles of 512 bytes by 8 rows) or Y or
  Yf (128 bytes by 32 rows) whose sizes \<open>height * width * 4\<close> and
  \<open>height * source_pitch\<close> are below \<open>2^32\<close>, over buffers that hold that many
  bytes, and for every pixel \<open>(x, y)\<close> with \<open>x < width\<close> and \<open>y < height\<close>
  whose source and destination offsets, computed as the specification words them, are in
  bounds: the conversion returns 0, and the converted buffer holds at
  \<open>dst_offset .. dst_offset + 3\<close> the four source bytes at
  \<open>src_offset .. src_offset + 3\<close>.
\<close>

theorem convert_copies_pixel:
  fixes w h p :: u32
  assumes geometry:
      "tiling = INTEL_TILING_X \<and> tile_w = 512 \<and> tile_h = 8 \<or>
       (tiling = INTEL_TILING_Y \<or> tiling = INTEL_TILING_YF) \<and> tile_w = 128 \<and> tile_h = 32"
    and x: "x < unat w" and y: "y < unat h"
    and nw: "unat h * unat w * 4 < 2 ^ 32" and np: "unat h * unat p < 2 ^ 32"
    and sb: "spec_src_offset tile_w tile_h (unat p) x y + 3 < unat h * unat p"
    and db: "spec_dst_offset (unat w) x y + 3 < unat h * unat w * 4"
    and sl: "unat h * unat p \<le> length src" and dl: "unat h * unat w * 4 \<le> length dst"
  shows "\<exists>dst'. convert_tiled_to_linear (Some src) (Some dst) w h p tiling = Some (Inr dst') \<and>
           length dst' = length dst \<and>
           (\<forall>k<4. dst' ! (spec_dst_offset (unat w) x y + k) =
                     src ! (spec_src_offset tile_w tile_h (unat p) x y + k))"
proof -
  from geometry obtain tw th where td: "tile_dims tiling = Some (tw, th)"
    and tw: "unat tw = tile_w" and th: "unat th = tile_h"
    by (auto simp: tile_dims_def INTEL_TILE_X_WIDTH_def INTEL_TILE_X_HEIGHT_def
        INTEL_TILE_Y_WIDTH_def INTEL_TILE_Y_HEIGHT_def)
  let ?S = "src_offset_of tw th p (of_nat x) (of_nat y)"
  let ?so = "spec_src_offset tile_w tile_h (unat p) x y"
  have uSL: "unat (h * p) = unat h * unat p" using np by (rule unat_mult_u32)
  have "y * unat w + x < unat h * unat w" using x y by (rule pixel_index_less)
  with nw have x4: "x * 4 < 2 ^ 32" by simp
  have y32: "y < 2 ^ 32" using y unat_u32_less [of h] by simp
  have uS: "unat ?S = ?so"
    using unat_src_offset [OF td x4 y32, of p] sb np by (simp add: tw th)
  have uSk: "unat (?S + of_nat k) = ?so + k" if "k < 4" for k
    using that sb np by (subst unat_plus_byte) (simp_all add: uS)
  have guard: "?S + of_nat k < h * p" if "k < 4" for k
    using that sb by (simp add: word_less_nat_alt uSk uSL)
  from sl have sl': "unat (h * p) \<le> length src" by (simp add: uSL)
  from convert_exact [OF td nw sl' dl] obtain dst' where
    c: "convert_tiled_to_linear (Some src) (Some dst) w h p tiling = Some (Inr dst')"
      "length dst' = length dst"
    and e: "\<forall>y<unat h. \<forall>x<unat w. \<forall>k<4. dst' ! ((y * unat w + x) * 4 + k) =
              (if src_offset_of tw th p (of_nat x) (of_nat y) + of_nat k < h * p
               then src ! unat (src_offset_of tw th p (of_nat x) (of_nat y) + of_nat k)
               else dst ! ((y * unat w + x) * 4 + k))"
    by blast
  have "dst' ! (spec_dst_offset (unat w) x y + k) = src ! (?so + k)" if k: "k < 4" for k
  proof -
    from e x y k have "dst' ! ((y * unat w + x) * 4 + k) =
              (if ?S + of_nat k < h * p then src ! unat (?S + of_nat k)
               else dst ! ((y * unat w + x) * 4 + k))" by blast
    with guard [OF k] uSk [OF k] have "dst' ! ((y * unat w + x) * 4 + k) = src ! (?so + k)"
      by simp
    moreover have "spec_dst_offset (unat w) x y = (y * unat w + x) * 4"
      by (simp add: spec_dst_offset_def add_mult_distrib)
    ultimately show ?thesis by simp
  qed
  with c show ?thesis by blast
qed

theorem convert_copies_pixel_witness:
  "spec_src_offset 512 8 512 0 9 = 4608 \<and> spec_dst_offset 512 0 9 = 9 * 512 * 4 \<and>
   (\<exists>dst'. convert_tiled_to_linear (Some (map of_nat [0..<16384])) (Some (replicate 65536 255))
              512 32 512 INTEL_TILING_X = Some (Inr dst') \<and>
      dst' ! (9 * 512 * 4) = (of_nat 4608 :: u8) \<and>
      dst' ! (9 * 512 * 4 + 1) = (of_nat 4609 :: u8) \<and>
      dst' ! (9 * 512 * 4 + 2) = (of_nat 4610 :: u8) \<and>
      dst' ! (9 * 512 * 4 + 3) = (of_nat 4611 :: u8))"
proof -
  have so: "spec_src_offset 512 8 512 0 9 = 4608"
    by (simp add: spec_src_offset_def)
  have d: "spec_dst_offset 512 0 9 = 9 * 512 * 4"
    by (simp add: spec_dst_offset_def)
  obtain dst' where
    c: "convert_tiled_to_linear (Some (map of_nat [0..<16384])) (Some (replicate 65536 255))
          512 32 512 INTEL_TILING_X = Some (Inr dst')"
    and e: "\<forall>k<4. dst' ! (spec_dst_offset (unat (512 :: u32)) 0 9 + k) =
                    map of_nat [0..<16384] ! (spec_src_offset 512 8 (unat (512 :: u32)) 0 9 + k)"
    using convert_copies_pixel
      [of INTEL_TILING_X 512 8 0 512 9 32 512 "map of_nat [0..<16384]" "replicate 65536 255"]
    by (auto simp: so d)
  have "dst' ! (9 * 512 * 4 + k) = (of_nat (4608 + k) :: u8)" if "k < 4" for k
    using e that by (simp add: so d)
  from this [of 0] this [of 1] this [of 2] this [of 3] c so d show ?thesis
    by simp
qed

text \<open>
  C1 as stated fails when the size of the linear image does not fit 32 bits.  For a
  32768 by 32768 image \<open>height * width * 4\<close> is \<open>2^32\<close>, which is 0 in
  \<open>uint32_t\<close>, so the guard of the copy never holds: pixel \<open>(0, 0)\<close> has source and
  destination offset 0, both in bounds, and is not copied.
\<close>

theorem convert_overflow_counterexample:
  "convert_tiled_to_linear (Some (replicate 16777216 1)) (Some (replicate 4294967296 0))
     32768 32768 512 INTEL_TILING_X = Some (Inr (replicate 4294967296 0)) \<and>
   spec_src_offset 512 8 512 0 0 = 0 \<and> spec_dst_offset 32768 0 0 = 0 \<and>
   (0 :: nat) + 3 < 32768 * 512 \<and> (0 :: nat) + 3 < 32768 * 32768 * 4 \<and>
   replicate 4294967296 (0 :: u8) ! 0 \<noteq> replicate 16777216 (1 :: u8) ! 0"
proof -
  have "convert_tiled_to_linear (Some (replicate 16777216 1)) (Some (replicate 4294967296 0))
          32768 32768 512 INTEL_TILING_X = Some (Inr (replicate 4294967296 0))"
    by (rule convert_zero_limit [where tw = 512 and th = 8])
       (simp_all add: tile_dims_def INTEL_TILE_X_WIDTH_def INTEL_TILE_X_HEIGHT_def)
  then show ?thesis
    by (simp add: spec_src_offset_def spec_dst_offset_def)
qed

text \<open>
  C5, as amended.  For all \<open>width\<close>, \<open>height\<close>, \<open>source_pitch\<close> and every tiling
  mode, with the limits \<open>height * width * 4\<close> and \<open>height * source_pitch\<close> as the
  converter computes them in 32 bits (never more than the exact products), over a source
  buffer of at least \<open>height * source_pitch\<close> bytes and a destination buffer of at
  least \<open>height * width * 4\<close> bytes: for a recognised mode (X, Y or Yf) the conversion returns 0 without touching
  memory outside the buffers, and for any other mode it returns \<open>-EINVAL\<close>; every
  byte of the destination that changed lies below \<open>height * width * 4\<close> and holds a
  byte read from the source below \<open>height * source_pitch\<close>.  The guard is applied to
  each byte: a byte that passes it is written within a pixel that lies wholly below the
  destination limit (\<open>dst_offset + 3 < height * width * 4\<close>) and is read at
  \<open>src_offset + k < height * source_pitch\<close>; a byte that fails it is skipped and the
  destination is left as it was.  Nothing is stated here for a buffer shorter than its
  limit; that case is treated in the last section.
\<close>

theorem convert_within_limits:
  fixes w h p :: u32
  assumes "unat (h * p) \<le> length src" and "unat (h * w * 4) \<le> length dst"
  shows "unat (h * p) \<le> unat h * unat p \<and> unat (h * w * 4) \<le> unat h * unat w * 4 \<and>
         (tile_dims tiling = None \<longrightarrow>
            convert_tiled_to_linear (Some src) (Some dst) w h p tiling = Some (Inl EINVAL)) \<and>
         (\<forall>tw th. tile_dims tiling = Some (tw, th) \<longrightarrow>
            (\<exists>dst'. convert_tiled_to_linear (Some src) (Some dst) w h p tiling = Some (Inr dst') \<and>
               length dst' = length dst \<and>
               (\<forall>j<length dst. dst' ! j \<noteq> dst ! j \<longrightarrow>
                  j < unat (h * w * 4) \<and> (\<exists>i<unat (h * p). dst' ! j = src ! i))) \<and>
            (\<forall>x y k d. k < 4 \<longrightarrow>
               (src_offset_of tw th p x y + of_nat k < h * p \<and>
                dst_offset_of w x y + of_nat k < h * w * 4 \<longrightarrow>
                  unat (src_offset_of tw th p x y + of_nat k) < unat (h * p) \<and>
                  unat (dst_offset_of w x y + of_nat k) = unat (dst_offset_of w x y) + k \<and>
                  unat (dst_offset_of w x y) + 3 < unat (h * w * 4)) \<and>
               (\<not> (src_offset_of tw th p x y + of_nat k < h * p \<and>
                   dst_offset_of w x y + of_nat k < h * w * 4) \<longrightarrow>
                  copy_byte src (h * p) (h * w * 4) (src_offset_of tw th p x y)
                    (dst_offset_of w x y) k d = Some d)))"
proof -
  have a: "unat (h * p) \<le> unat h * unat p"
    by (simp add: unat_word_ariths)
  have "unat (h * w * 4) = (unat h * unat w * 4) mod 2 ^ 32"
    by (simp add: unat_word_ariths mod_mult_left_eq)
  then have b: "unat (h * w * 4) \<le> unat h * unat w * 4" by simp
  have n: "tile_dims tiling = None \<longrightarrow>
             convert_tiled_to_linear (Some src) (Some dst) w h p tiling = Some (Inl EINVAL)"
    by (simp add: convert_tiled_to_linear_def)
  have c: "(src_offset_of tw th p x y + of_nat k < h * p \<and>
             dst_offset_of w x y + of_nat k < h * w * 4 \<longrightarrow>
               unat (src_offset_of tw th p x y + of_nat k) < unat (h * p) \<and>
               unat (dst_offset_of w x y + of_nat k) = unat (dst_offset_of w x y) + k \<and>
               unat (dst_offset_of w x y) + 3 < unat (h * w * 4)) \<and>
            (\<not> (src_offset_of tw th p x y + of_nat k < h * p \<and>
                dst_offset_of w x y + of_nat k < h * w * 4) \<longrightarrow>
               copy_byte src (h * p) (h * w * 4) (src_offset_of tw th p x y)
                 (dst_offset_of w x y) k d = Some d)" if "k < 4" for tw th x y k d
    using dst_guard_whole_pixel [of w x y k h] that
    by (auto simp: copy_byte_def word_less_nat_alt)
  have e: "\<exists>dst'. convert_tiled_to_linear (Some src) (Some dst) w h p tiling = Some (Inr dst') \<and>
             length dst' = length dst \<and>
             (\<forall>j<length dst. dst' ! j \<noteq> dst ! j \<longrightarrow>
                j < unat (h * w * 4) \<and> (\<exists>i<unat (h * p). dst' ! j = src ! i))"
    if "tile_dims tiling = Some (tw, th)" for tw th
    using that assms by (rule convert_only_copies)
  from a b n c e show ?thesis by blast
qed

lemma small_convert:
  "convert_tiled_to_linear (Some [10, 11, 12, 13, 14, 15]) (Some [0, 0, 0, 0, 0, 0, 0, 0]) 2 1 6
     INTEL_TILING_X = Some (Inr [10, 11, 12, 13, 14, 15, 0, 0])"
  by code_simp

theorem convert_within_limits_witness:
  "unat (1 * 6 :: u32) = 6 \<and> unat (1 * 2 * 4 :: u32) = 8 \<and>
   convert_tiled_to_linear (Some [10, 11, 12, 13, 14, 15]) (Some [0, 0, 0, 0, 0, 0, 0, 0]) 2 1 6
     INTEL_TILING_NONE = Some (Inl EINVAL) \<and>
   (\<exists>dst'. convert_tiled_to_linear (Some [10, 11, 12, 13, 14, 15])
              (Some [0, 0, 0, 0, 0, 0, 0, 0]) 2 1 6 INTEL_TILING_X = Some (Inr dst') \<and>
      length dst' = 8 \<and> dst' = [10, 11, 12, 13, 14, 15, 0, 0]) \<and>
   unat (dst_offset_of 2 1 0) + 3 < unat (1 * 2 * 4 :: u32) \<and>
   unat (src_offset_of 512 8 6 1 0 + 1) < unat (1 * 6 :: u32) \<and>
   copy_byte [10, 11, 12, 13, 14, 15] (1 * 6) (1 * 2 * 4) (src_offset_of 512 8 6 1 0)
     (dst_offset_of 2 1 0) 2 [10, 11, 12, 13, 14, 15, 0, 0] =
     Some [10, 11, 12, 13, 14, 15, 0, 0]"
proof -
  have o: "src_offset_of 512 8 6 1 0 = 4" "dst_offset_of 2 1 0 = 4"
    by (simp_all add: src_offset_of_def dst_offset_of_def tile_offset_x_def tile_offset_y_def)
  note t = convert_within_limits
    [where h = 1 and p = 6 and w = 2 and src = "[10, 11, 12, 13, 14, 15]"
       and dst = "[0, 0, 0, 0, 0, 0, 0, 0]", simplified]
  have none: "convert_tiled_to_linear (Some [10, 11, 12, 13, 14, 15])
                (Some [0, 0, 0, 0, 0, 0, 0, 0]) 2 1 6 INTEL_TILING_NONE = Some (Inl EINVAL)"
    using t [of INTEL_TILING_NONE] by (simp add: tile_dims_def)
  have x: "tile_dims INTEL_TILING_X = Some (512, 8)"
    by (simp add: tile_dims_def INTEL_TILE_X_WIDTH_def INTEL_TILE_X_HEIGHT_def)
  from t [of INTEL_TILING_X] x have
    ex: "\<exists>dst'. convert_tiled_to_linear (Some [10, 11, 12, 13, 14, 15])
                  (Some [0, 0, 0, 0, 0, 0, 0, 0]) 2 1 6 INTEL_TILING_X = Some (Inr dst') \<and>
           length dst' = 8"
    and bt: "\<forall>x y k d. k < 4 \<longrightarrow>
               (src_offset_of 512 8 6 x y + of_nat k < 6 \<and>
                dst_offset_of 2 x y + of_nat k < 8 \<longrightarrow>
                  unat (src_offset_of 512 8 6 x y + of_nat k) < 6 \<and>
                  unat (dst_offset_of 2 x y + of_nat k) = unat (dst_offset_of 2 x y) + k \<and>
                  unat (dst_offset_of 2 x y) + 3 < 8) \<and>
               (\<not> (src_offset_of 512 8 6 x y + of_nat k < 6 \<and>
                   dst_offset_of 2 x y + of_nat k < 8) \<longrightarrow>
                  copy_byte [10, 11, 12, 13, 14, 15] 6 8 (src_offset_of 512 8 6 x y)
                    (dst_offset_of 2 x y) k d = Some d)"
    by auto
  from bt [rule_format, of 1 1 0] bt [rule_format, of 2 1 0 "[10, 11, 12, 13, 14, 15, 0, 0]"]
  have "unat (dst_offset_of 2 1 0) + 3 < 8" "unat (src_offset_of 512 8 6 1 0 + 1) < 6"
    "copy_byte [10, 11, 12, 13, 14, 15] 6 8 (src_offset_of 512 8 6 1 0)
       (dst_offset_of 2 1 0) 2 [10, 11, 12, 13, 14, 15, 0, 0] =
       Some [10, 11, 12, 13, 14, 15, 0, 0]"
    by (simp_all add: o)
  with none ex show ?thesis by (auto simp: small_convert)
qed

text \<open>
  C5 as stated fails for the source when \<open>height * source_pitch\<close> is not a multiple of
  4.  With width 2, height 1 and pitch 6 the pixel at \<open>x = 1\<close> has source offset 4;
  its first two bytes pass the guard and are read from \<open>src[4]\<close> and \<open>src[5]\<close>
  although \<open>src_offset + 3 = 7\<close> is not below \<open>height * source_pitch = 6\<close>.
\<close>

theorem convert_partial_pixel_counterexample:
  "convert_tiled_to_linear (Some [10, 11, 12, 13, 14, 15]) (Some [0, 0, 0, 0, 0, 0, 0, 0]) 2 1 6
     INTEL_TILING_X = Some (Inr [10, 11, 12, 13, 14, 15, 0, 0]) \<and>
   src_offset_of 512 8 6 1 0 = 4 \<and> dst_offset_of 2 1 0 = 4 \<and>
   \<not> unat (src_offset_of 512 8 6 1 0) + 3 < unat (1 :: u32) * unat (6 :: u32)"
  by (simp add: small_convert src_offset_of_def dst_offset_of_def tile_offset_x_def
      tile_offset_y_def)

section \<open>A destination shorter than the limit\<close>

text \<open>
  The guard protects a destination of \<open>height * width * 4\<close> bytes.  The pipeline
  allocates \<open>expected_size\<close> bytes, which is less for a frame above
  \<open>MAX_CAPTURE_SIZE\<close>; a byte that passes the guard at or beyond the end of the
  destination is then written outside it.
\<close>

lemma for_upto_fault:
  assumes "i < n" and "P s0"
    and pres: "\<And>j s s'. P s \<Longrightarrow> body j s = Some s' \<Longrightarrow> P s'"
    and fault: "\<And>s. P s \<Longrightarrow> body i s = None"
  shows "for_upto n body s0 = None"
  using assms(1)
proof (induction n)
  case 0
  then show ?case by simp
next
  case (Suc n)
  show ?case
  proof (cases "for_upto n body s0")
    case None
    then show ?thesis by simp
  next
    case (Some s1)
    have "P s1"
      using Some assms(2) by (rule for_upto_preserves) (rule pres)
    from Suc Some have "i = n" by (cases "i < n") auto
    with fault [OF \<open>P s1\<close>] Some show ?thesis by simp
  qed
qed

lemma convert_overrun:
  assumes td: "tile_dims tiling = Some (tw, th)"
    and x: "x < unat w" and y: "y < unat h" and k: "k < 4"
    and gs: "src_offset_of tw th p (of_nat x) (of_nat y) + of_nat k < h * p"
    and gd: "dst_offset_of w (of_nat x) (of_nat y) + of_nat k < h * w * 4"
    and short: "length dst \<le> unat (dst_offset_of w (of_nat x) (of_nat y) + of_nat k)"
  shows "convert_tiled_to_linear (Some src) (Some dst) w h p tiling = None"
proof -
  let ?P = "\<lambda>d. length d = length dst"
  have byte: "copy_byte src (h * p) (h * w * 4) (src_offset_of tw th p (of_nat x) (of_nat y))
                (dst_offset_of w (of_nat x) (of_nat y)) k d = None" if "?P d" for d
    using that gs gd short by (simp add: copy_byte_def)
  have pixel: "copy_pixel src tw th w h p y x d = None" if "?P d" for d
    unfolding copy_pixel_def using k that
    by (rule for_upto_fault [where P = ?P]) (auto dest: copy_byte_length intro: byte)
  have row: "for_upto (unat w) (copy_pixel src tw th w h p y) d = None" if "?P d" for d
    using x that
    by (rule for_upto_fault [where P = ?P]) (auto dest: copy_pixel_length intro: pixel)
  have rowlen: "?P d'" if "?P d" "for_upto (unat w) (copy_pixel src tw th w h p y') d = Some d'"
    for y' d d'
    using that(2,1)
    by (rule for_upto_preserves [where P = ?P]) (auto dest: copy_pixel_length)
  have "for_upto (unat h) (\<lambda>y. for_upto (unat w) (copy_pixel src tw th w h p y)) dst = None"
    using y
    by (rule for_upto_fault [where P = ?P]) (auto intro: row rowlen)
  then show ?thesis by (simp add: convert_tiled_to_linear_def td)
qed

lemma convert_4k_overruns_pixel_buffer:
  assumes "length dst = expected_size 2160 3840"
  shows "length dst = MAX_CAPTURE_SIZE"
    and "convert_tiled_to_linear (Some src) (Some dst) 3840 2160 15360 INTEL_TILING_X = None"
proof -
  show len: "length dst = MAX_CAPTURE_SIZE"
    using assms by (simp add: expected_size_def MAX_CAPTURE_SIZE_def)
  show "convert_tiled_to_linear (Some src) (Some dst) 3840 2160 15360 INTEL_TILING_X = None"
    by (rule convert_overrun [where tw = 512 and th = 8 and x = 0 and y = 1080 and k = 0])
       (simp_all add: tile_dims_def INTEL_TILE_X_WIDTH_def INTEL_TILE_X_HEIGHT_def
          src_offset_of_def dst_offset_of_def tile_offset_x_def tile_offset_y_def len
          MAX_CAPTURE_SIZE_def)
qed

lemma capture_4k_tiled_overruns:
  assumes "fb_obj0 f = Some gem" and "current_index st < length (captured_fbs st)"
    and "fb_width f = 3840" and "fb_height f = 2160" and "fb_pitches0 f = 15360"
    and "detect_intel_tiling env (Some f) = INTEL_TILING_X"
    and "pixel_vmalloc env = Some junk" and "raw_vmalloc env = Some junk'"
    and "shmem_method env gem 33177600 (map junk' [0..<33177600]) = Some (copied, raw)"
    and "0 < copied"
  shows "capture_fb_pixels env (Some f) d st = None"
proof -
  let ?c = "new_capture env f d"
  have size: "expected_size 2160 3840 = 16588800"
    by (simp add: expected_size_def MAX_CAPTURE_SIZE_def)
  have "convert_tiled_to_linear (Some raw) (Some (map junk [0..<16588800])) 3840 2160 15360
          INTEL_TILING_X = None"
    by (rule convert_4k_overruns_pixel_buffer(2)) (simp add: size)
  then have "finish_extract True raw ?c = None"
    using assms(3-7) by (simp add: finish_extract_def size vmalloc_def)
  then have "extract_gem_pixels env (Some gem) ?c = None"
    using assms(3-6,8-10) by (simp add: extract_gem_pixels_def Let_def vmalloc_def)
  then show ?thesis
    using assms(1-4,7) by (simp add: capture_fb_pixels_def size vmalloc_def)
qed

end
